theory Spec2Isabelle
  imports Complex_Main "HOL-Library.Word" "HOL-Library.Multiset"
begin

section \<open>FCPP: deployment network manager, logger, graph spawner, collection routines\<close>

text \<open>
  A shallow embedding of the parts of the FCPP library the verified properties are
  about: \<^verbatim>\<open>fcpp::os::network\<close> (lib/deployment/os.hpp),
  \<^verbatim>\<open>component::logger\<close> (lib/component/logger.hpp),
  \<^verbatim>\<open>component::graph_spawner\<close> (lib/cloud/graph_spawner.hpp) and the routines of
  lib/coordination/collection.hpp.

  \<^verbatim>\<open>times_t\<close> and \<^verbatim>\<open>real_t\<close> are floating-point types in the source. Times are
  embedded as exact real numbers: rounding of the floating-point operations is not modelled.
\<close>

type_synonym times_t = real
type_synonym device_t = nat

subsection \<open>lib/deployment/os.hpp: the network manager\<close>

text \<open>An element of \<^verbatim>\<open>std::vector<char>\<close>: eight bits. Whether plain \<^verbatim>\<open>char\<close> is
  signed is implementation-defined in C++ (signed on x86 and x86-64 System V, unsigned on
  the ARM EABI); the embedding takes it as the parameter \<open>char_signed\<close> wherever a
  \<^verbatim>\<open>char\<close> is read as a number.\<close>

type_synonym byte = "8 word"

record message_type =
  time :: times_t
  device :: device_t
  power :: real
  content :: "byte list"

text \<open>The members of \<^verbatim>\<open>network\<close>. \<open>node_received\<close> stands for the referenced node:
  it collects the arguments of \<^verbatim>\<open>m_node.receive(m)\<close> (push mode). \<open>sent_log\<close> is the
  trace of the calls \<^verbatim>\<open>m_transceiver.send(uid, m_send, m_attempt)\<close>, kept to state
  what was handed to the radio.\<close>

record network =
  m_receive :: "message_type list"
  m_send :: "byte list"
  m_send_time :: times_t
  m_attempt :: int
  node_received :: "message_type list"
  sent_log :: "(device_t \<times> byte list \<times> int) list"

text \<open>What one iteration of \<^verbatim>\<open>manage\<close> reads from outside the object: the two values
  of \<^verbatim>\<open>m_node.net.internal_time()\<close>, the result of \<^verbatim>\<open>m_transceiver.send\<close> (when it
  is called) and the result of \<^verbatim>\<open>m_transceiver.receive\<close>.\<close>

record manage_env =
  now_send :: times_t
  send_result :: bool
  now_receive :: times_t
  received :: message_type

datatype fault = SignedOverflow

definition INT_MAX :: int where
  "INT_MAX = 2147483647"

text \<open>\<^verbatim>\<open>network::send\<close>: schedules the broadcast of a message.\<close>

definition send :: "times_t \<Rightarrow> byte list \<Rightarrow> network \<Rightarrow> network" where
  "send now m s = s\<lparr>m_send := m, m_send_time := now, m_attempt := 0\<rparr>"

text \<open>\<^verbatim>\<open>std::min(a, b)\<close> returns \<open>b\<close> when \<open>b < a\<close> and \<open>a\<close> otherwise.\<close>

definition std_min :: "'a::linorder \<Rightarrow> 'a \<Rightarrow> 'a" where
  "std_min a b = (if b < a then b else a)"

text \<open>The conversion \<^verbatim>\<open>(char)x\<close> of a floating-point value: the fractional part is
  discarded (truncation towards zero). The result is given as the eight-bit pattern of the
  truncated value; for a value outside the range of \<^verbatim>\<open>char\<close> the C++ standard leaves
  the conversion undefined, and the pattern is what the conversion through a wider integer
  register yields.\<close>

definition trunc_zero :: "real \<Rightarrow> int" where
  "trunc_zero x = (if 0 \<le> x then \<lfloor>x\<rfloor> else \<lceil>x\<rceil>)"

definition to_char :: "real \<Rightarrow> byte" where
  "to_char x = word_of_int (trunc_zero x)"

text \<open>The value of a \<^verbatim>\<open>char\<close> in an arithmetic expression (integral promotion).\<close>

definition char_value :: "bool \<Rightarrow> byte \<Rightarrow> int" where
  "char_value char_signed b = (if char_signed then sint b else uint b)"

text \<open>The byte pushed onto the outgoing message:
  \<^verbatim>\<open>(char)std::min((internal_time() - m_send_time)*128, times_t{255})\<close>.\<close>

definition delay_stamp :: "times_t \<Rightarrow> times_t \<Rightarrow> byte" where
  "delay_stamp now send_time = to_char (std_min ((now - send_time) * 128) 255)"

text \<open>The delay read back from a trailing byte: \<^verbatim>\<open>m.content.back() / times_t{128}\<close>.\<close>

definition stamp_delay :: "bool \<Rightarrow> byte \<Rightarrow> times_t" where
  "stamp_delay char_signed b = of_int (char_value char_signed b) / 128"

text \<open>The sending half of one iteration of \<^verbatim>\<open>manage\<close>. \<^verbatim>\<open>++m_attempt\<close> on an
  \<^verbatim>\<open>int\<close> holding \<^verbatim>\<open>INT_MAX\<close> is a signed overflow.\<close>

definition manage_send :: "device_t \<Rightarrow> manage_env \<Rightarrow> network \<Rightarrow> fault + network" where
  "manage_send uid e s =
     (if m_send s \<noteq> [] then
        (let stamped = m_send s @ [delay_stamp (now_send e) (m_send_time s)];
             s1 = s\<lparr>m_send := stamped,
                    sent_log := sent_log s @ [(uid, stamped, m_attempt s)]\<rparr>
         in if send_result e then Inr (s1\<lparr>m_send := []\<rparr>)
            else if m_attempt s = INT_MAX then Inl SignedOverflow
            else Inr (s1\<lparr>m_send := butlast stamped, m_attempt := m_attempt s + 1\<rparr>))
      else Inr s)"

text \<open>The receiving half: a message with empty content is no message.\<close>

definition manage_receive :: "bool \<Rightarrow> bool \<Rightarrow> manage_env \<Rightarrow> network \<Rightarrow> network" where
  "manage_receive char_signed push e s =
     (let m = received e in
      if content m \<noteq> [] then
        (let m1 = m\<lparr>time := now_receive e - stamp_delay char_signed (last (content m))\<rparr>;
             m2 = m1\<lparr>content := butlast (content m1)\<rparr>
         in if push then s\<lparr>node_received := node_received s @ [m2]\<rparr>
            else s\<lparr>m_receive := m_receive s @ [m2]\<rparr>)
      else s)"

text \<open>One iteration of the body of \<^verbatim>\<open>manage\<close>.\<close>

definition manage :: "bool \<Rightarrow> bool \<Rightarrow> device_t \<Rightarrow> manage_env \<Rightarrow> network \<Rightarrow> fault + network" where
  "manage char_signed push uid e s =
     (case manage_send uid e s of
        Inl f \<Rightarrow> Inl f
      | Inr s1 \<Rightarrow> Inr (manage_receive char_signed push e s1))"



text \<open>Example values: a network object with nothing scheduled, a silent radio
  (\<^verbatim>\<open>receive\<close> returns a message with empty content), and iterations at given times
  whose send attempt fails or succeeds.\<close>

definition idle_network :: network where
  "idle_network = \<lparr>m_receive = [], m_send = [], m_send_time = 0, m_attempt = 0,
     node_received = [], sent_log = []\<rparr>"

definition no_message :: message_type where
  "no_message = \<lparr>time = 0, device = 0, power = 0, content = []\<rparr>"


definition successful_iteration :: "times_t \<Rightarrow> manage_env" where
  "successful_iteration t = \<lparr>now_send = t, send_result = True, now_receive = t, received = no_message\<rparr>"

definition hearing_iteration :: "times_t \<Rightarrow> message_type \<Rightarrow> manage_env" where
  "hearing_iteration t m = \<lparr>now_send = t, send_result = True, now_receive = t, received = m\<rparr>"

subsection \<open>lib/cloud/graph_spawner.hpp: reading a graph\<close>

text \<open>An input stream, as far as \<^verbatim>\<open>operator>>\<close> sees it: the whitespace-separated tokens
  still to come, each either one from which the extraction yields a value (\<open>Tok\<close>) or one
  on which it fails before the end of the file (\<open>Garbage\<close>), and the two state flags.\<close>

datatype 'a token = Tok 'a | Garbage

record 'a istream =
  tokens :: "'a token list"
  failbit :: bool
  eofbit :: bool

text \<open>A stream just opened on a file holding the given tokens.\<close>

definition fresh :: "'a token list \<Rightarrow> 'a istream" where
  "fresh ts = \<lparr>tokens = ts, failbit = False, eofbit = False\<rparr>"

text \<open>\<^verbatim>\<open>inp >> v\<close>: nothing happens on a stream that has failed; at the end of the file
  the extraction fails, sets both flags and leaves \<open>v\<close> as it is; on a token that cannot be
  parsed it fails and stores the zero value.\<close>

definition stream_get :: "'a \<Rightarrow> 'a istream \<Rightarrow> 'a \<Rightarrow> 'a istream \<times> 'a" where
  "stream_get zero inp v =
     (if failbit inp then (inp, v)
      else case tokens inp of
        [] \<Rightarrow> (inp\<lparr>failbit := True, eofbit := True\<rparr>, v)
      | Tok x # ts \<Rightarrow> (inp\<lparr>tokens := ts\<rparr>, x)
      | Garbage # ts \<Rightarrow> (inp\<lparr>failbit := True\<rparr>, zero))"

text \<open>A failing \<^verbatim>\<open>assert(is.eof())\<close> ends the program.\<close>

datatype spawn_error = AssertionFailed

text \<open>\<^verbatim>\<open>read_arc\<close>: the result, the stream and the row afterwards.\<close>

definition read_arc ::
  "nat istream \<Rightarrow> nat \<times> nat \<Rightarrow> (spawn_error + bool) \<times> nat istream \<times> (nat \<times> nat)" where
  "read_arc inp row =
     (let (inp1, a) = stream_get 0 inp (fst row);
          (inp2, b) = stream_get 0 inp1 (snd row)
      in if failbit inp2 then
           (if eofbit inp2 then (Inr False, inp2, (a, b))
            else (Inl AssertionFailed, inp2, (a, b)))
         else (Inr True, inp2, (a, b)))"

lemma read_arc_consumes:
  "read_arc inp row = (Inr True, inp', row') \<Longrightarrow> length (tokens inp') < length (tokens inp)"
  by (auto simp: read_arc_def stream_get_def Let_def
      split: if_splits list.splits token.splits prod.splits)

text \<open>\<^verbatim>\<open>read_arcs\<close>: the loop over \<^verbatim>\<open>read_arc\<close>. The identifier and connector
  components are other files of the library: the call
  \<^verbatim>\<open>node_at(row.first).connect(&node_at(row.second))\<close> is recorded as the directed link
  \<open>(row.first, row.second)\<close>, in the order of the calls.\<close>

function read_arcs ::
  "nat istream \<Rightarrow> nat \<times> nat \<Rightarrow> (device_t \<times> device_t) list \<Rightarrow>
   spawn_error + (device_t \<times> device_t) list" where
  "read_arcs inp row links =
     (case read_arc inp row of
        (Inl e, inp', row') \<Rightarrow> Inl e
      | (Inr False, inp', row') \<Rightarrow> Inr links
      | (Inr True, inp', row') \<Rightarrow> read_arcs inp' row' (links @ [(fst row', snd row')]))"
  by pat_completeness auto
termination
  by (relation "measure (\<lambda>(inp, row, links). length (tokens inp))")
     (auto dest: read_arc_consumes[OF sym])

declare read_arcs.simps [simp del]

text \<open>The pairs \<open>(from, to)\<close> at the head of a token sequence: two values at a time, up to
  the first extraction that fails; and whether that first failure is the end of the file.\<close>

fun complete_pairs :: "nat token list \<Rightarrow> (nat \<times> nat) list" where
  "complete_pairs (Tok a # Tok b # ts) = (a, b) # complete_pairs ts"
| "complete_pairs ts = []"

fun ends_at_eof :: "nat token list \<Rightarrow> bool" where
  "ends_at_eof (Tok a # Tok b # ts) = ends_at_eof ts"
| "ends_at_eof [] = True"
| "ends_at_eof [Tok a] = True"
| "ends_at_eof ts = False"

text \<open>Tags and tagged tuples. The tagged tuple type belongs to lib/common/tagged_tuple.hpp,
  another file of the library; a tagged tuple is taken as the list of its tags with their values, in declaration
  order, \<^verbatim>\<open>common::get_or<S>(t, d)\<close> as the value of \<open>S\<close> in \<open>t\<close> or else \<open>d\<close>, and an
  assignment to \<^verbatim>\<open>common::get<S>(t)\<close> as the replacement of the value of \<open>S\<close>.\<close>

datatype tag = Start | Name | Output | Plotter | NodesInput | ArcsInput | Tag string

datatype init_value = Number real | Text string | Pointer nat

type_synonym tagged_tuple = "(tag \<times> init_value) list"

definition get_or :: "tag \<Rightarrow> tagged_tuple \<Rightarrow> init_value \<Rightarrow> init_value" where
  "get_or S t d = (case map_of t S of Some v \<Rightarrow> v | None \<Rightarrow> d)"

fun tuple_set :: "tag \<Rightarrow> init_value \<Rightarrow> tagged_tuple \<Rightarrow> tagged_tuple" where
  "tuple_set S v [] = []"
| "tuple_set S v ((T, w) # r) = (if T = S then (T, v) # r else (T, w) # tuple_set S v r)"

text \<open>The member \<^verbatim>\<open>size_t m_start\<close> is initialised from
  \<^verbatim>\<open>common::get_or<tags::start>(t, 0)\<close>: a numeric value is converted to \<^verbatim>\<open>size_t\<close>,
  which discards the fractional part. (For a negative or too large floating-point value
  C++ leaves the conversion undefined; it is given here as the reduction modulo \<open>2^64\<close>
  that the conversion of an integer performs.)\<close>

definition to_size_t :: "init_value \<Rightarrow> nat" where
  "to_size_t v = (case v of Number r \<Rightarrow> nat (trunc_zero r mod 2 ^ 64) | _ \<Rightarrow> 0)"

text \<open>\<^verbatim>\<open>push_time\<close>: the overload is chosen by whether \<^verbatim>\<open>tags::start\<close> is among the
  declared attribute tags.\<close>

definition push_time :: "tag list \<Rightarrow> nat \<Rightarrow> tagged_tuple \<Rightarrow> tagged_tuple" where
  "push_time tags start_default row =
     (if Start \<in> set tags then row else row @ [(Start, Number (of_nat start_default))])"

text \<open>\<^verbatim>\<open>read_row\<close>: one extraction per declared tag, in order.\<close>

fun read_row :: "tag list \<Rightarrow> init_value istream \<Rightarrow> tagged_tuple \<Rightarrow>
    (spawn_error + bool) \<times> init_value istream \<times> tagged_tuple" where
  "read_row [] inp row = (Inr True, inp, row)"
| "read_row (S # Ss) inp row =
     (let (inp1, v) = stream_get (Number 0) inp (get_or S row (Number 0));
          row1 = tuple_set S v row
      in if failbit inp1 then
           (if eofbit inp1 then (Inr False, inp1, row1)
            else (Inl AssertionFailed, inp1, row1))
         else read_row Ss inp1 row1)"

lemma read_row_tokens_le:
  "read_row tags inp row = (r, inp', row') \<Longrightarrow> length (tokens inp') \<le> length (tokens inp)"
proof (induction tags arbitrary: inp row)
  case Nil
  then show ?case by simp
next
  case (Cons S Ss)
  obtain inp1 v where g: "stream_get (Number 0) inp (get_or S row (Number 0)) = (inp1, v)"
    by (cases "stream_get (Number 0) inp (get_or S row (Number 0))")
  have le1: "length (tokens inp1) \<le> length (tokens inp)"
    using g by (auto simp: stream_get_def split: if_splits list.splits token.splits)
  show ?case
  proof (cases "failbit inp1")
    case True
    then show ?thesis using Cons.prems g le1 by (auto simp: Let_def split: if_splits)
  next
    case False
    then have "read_row Ss inp1 (tuple_set S v row) = (r, inp', row')"
      using Cons.prems g by (simp add: Let_def)
    from Cons.IH[OF this] le1 show ?thesis by simp
  qed
qed

lemma read_row_consumes:
  assumes "read_row (S # Ss) inp row = (Inr True, inp', row')"
  shows "length (tokens inp') < length (tokens inp)"
proof -
  obtain inp1 v where g: "stream_get (Number 0) inp (get_or S row (Number 0)) = (inp1, v)"
    by (cases "stream_get (Number 0) inp (get_or S row (Number 0))")
  have nf: "\<not> failbit inp1" using assms g by (auto simp: Let_def split: if_splits)
  then have lt: "length (tokens inp1) < length (tokens inp)"
    using g by (auto simp: stream_get_def split: if_splits list.splits token.splits)
  have "read_row Ss inp1 (tuple_set S v row) = (Inr True, inp', row')"
    using assms g nf by (simp add: Let_def)
  from read_row_tokens_le[OF this] lt show ?thesis by simp
qed

text \<open>\<^verbatim>\<open>read_nodes\<close>: the loop over \<^verbatim>\<open>read_row\<close>; every row read is passed through
  \<^verbatim>\<open>push_time\<close> and handed to \<^verbatim>\<open>node_emplace\<close> (recorded in order). With no
  declared attribute \<^verbatim>\<open>read_row\<close> returns true without reading, and the loop never
  ends: the result \<open>None\<close>.\<close>

function read_nodes :: "tag list \<Rightarrow> nat \<Rightarrow> init_value istream \<Rightarrow> tagged_tuple \<Rightarrow>
    tagged_tuple list \<Rightarrow> (spawn_error + tagged_tuple list) option" where
  "read_nodes [] start_default inp row nodes = None"
| "read_nodes (S # Ss) start_default inp row nodes =
     (case read_row (S # Ss) inp row of
        (Inl e, inp', row') \<Rightarrow> Some (Inl e)
      | (Inr False, inp', row') \<Rightarrow> Some (Inr nodes)
      | (Inr True, inp', row') \<Rightarrow>
          read_nodes (S # Ss) start_default inp' row'
            (nodes @ [push_time (S # Ss) start_default row']))"
  by pat_completeness auto
termination
  by (relation "measure (\<lambda>(tags, start_default, inp, row, nodes). length (tokens inp))")
     (auto simp del: read_row.simps dest: read_row_consumes[OF sym])

declare read_nodes.simps [simp del]

text \<open>The constructor of the spawner's \<^verbatim>\<open>net\<close>: the declared attribute tags, the
  initialisation tuple, and the contents of the nodes and arcs files.\<close>

record spawner_net =
  m_start :: nat
  emplaced :: "tagged_tuple list"
  connected :: "(device_t \<times> device_t) list"

definition default_row :: "tag list \<Rightarrow> tagged_tuple" where
  "default_row tags = map (\<lambda>S. (S, Number 0)) tags"

definition graph_spawner_net ::
  "tag list \<Rightarrow> tagged_tuple \<Rightarrow> init_value token list \<Rightarrow> nat token list \<Rightarrow>
   (spawn_error + spawner_net) option" where
  "graph_spawner_net tags t nodes_file arcs_file =
     (let ms = to_size_t (get_or Start t (Number 0)) in
      case read_nodes tags ms (fresh nodes_file) (default_row tags) [] of
        None \<Rightarrow> None
      | Some (Inl e) \<Rightarrow> Some (Inl e)
      | Some (Inr ns) \<Rightarrow>
          (case read_arcs (fresh arcs_file) (0, 0) [] of
             Inl e \<Rightarrow> Some (Inl e)
           | Inr ls \<Rightarrow> Some (Inr \<lparr>m_start = ms, emplaced = ns, connected = ls\<rparr>)))"

subsection \<open>lib/component/logger.hpp: the output sink\<close>

text \<open>What \<^verbatim>\<open>details::make_stream\<close> returns: a shared pointer to the caller's stream with
  a deleter that does nothing (\<open>Borrowed\<close>, the stream stays the caller's), or to a new
  \<^verbatim>\<open>std::ofstream\<close> opened at a path (\<open>OwnedFile\<close>). Streams are named by numbers;
  \<^verbatim>\<open>&std::cout\<close>, the default of \<^verbatim>\<open>tags::output\<close>, is \<open>stdout_stream\<close>.\<close>

datatype sink = Borrowed nat | OwnedFile string

definition stdout_stream :: nat where
  "stdout_stream = 0"

text \<open>\<^verbatim>\<open>t.print(ss, common::underscore_tuple, common::skip_tags<...>)\<close>: the printing of a
  tagged tuple belongs to lib/common/tagged_tuple.hpp. It is the parameter \<open>print_underscore\<close>, applied to the tuple without the skipped
  tags.\<close>

definition skip_tags :: "tag list \<Rightarrow> tagged_tuple \<Rightarrow> tagged_tuple" where
  "skip_tags skipped t = filter (\<lambda>(T, v). T \<notin> set skipped) t"

text \<open>\<^verbatim>\<open>std::string name{common::get_or<tags::name>(t, "")}\<close>.\<close>

definition name_of :: "tagged_tuple \<Rightarrow> string" where
  "name_of t = (case get_or Name t (Text []) of Text n \<Rightarrow> n | _ \<Rightarrow> [])"

text \<open>\<^verbatim>\<open>make_stream(std::string const&, t)\<close>. \<^verbatim>\<open>s.back()\<close> on an empty string is
  undefined: the result \<open>None\<close>.\<close>

definition make_stream_path :: "(tagged_tuple \<Rightarrow> string) \<Rightarrow> string \<Rightarrow> tagged_tuple \<Rightarrow> sink option" where
  "make_stream_path print_underscore s t =
     (if s = [] then None
      else if last s = CHR ''/'' \<or> last s = CHR 0x5C then
        Some (OwnedFile (s @ (if length (name_of t) > 0 then name_of t @ ''_'' else [])
               @ print_underscore (skip_tags [Name, Output, Plotter] t) @ ''.txt''))
      else Some (OwnedFile s))"

text \<open>The overloads of \<^verbatim>\<open>make_stream\<close>, chosen by the type of the value of
  \<^verbatim>\<open>tags::output\<close>: a \<^verbatim>\<open>std::string\<close> or \<^verbatim>\<open>const char*\<close> path, or a pointer to a
  stream. There is no overload for a number.\<close>

definition make_stream :: "(tagged_tuple \<Rightarrow> string) \<Rightarrow> init_value \<Rightarrow> tagged_tuple \<Rightarrow> sink option" where
  "make_stream print_underscore v t =
     (case v of
        Text s \<Rightarrow> make_stream_path print_underscore s t
      | Pointer p \<Rightarrow> Some (Borrowed p)
      | Number x \<Rightarrow> None)"

text \<open>The initialisation of \<^verbatim>\<open>m_stream\<close> in the constructor of the logger's
  \<^verbatim>\<open>net\<close>.\<close>

definition logger_stream :: "(tagged_tuple \<Rightarrow> string) \<Rightarrow> tagged_tuple \<Rightarrow> sink option" where
  "logger_stream print_underscore t =
     make_stream print_underscore (get_or Output t (Pointer stdout_stream)) t"

text \<open>A path naming a directory, and the file name generated for it.\<close>

definition is_directory :: "string \<Rightarrow> bool" where
  "is_directory s = (s \<noteq> [] \<and> (last s = CHR ''/'' \<or> last s = CHR 0x5C))"

definition generated_name :: "(tagged_tuple \<Rightarrow> string) \<Rightarrow> tagged_tuple \<Rightarrow> string" where
  "generated_name print_underscore t =
     (if name_of t = [] then [] else name_of t @ ''_'')
     @ print_underscore (filter (\<lambda>(T, v). T \<noteq> Name \<and> T \<noteq> Output \<and> T \<noteq> Plotter) t) @ ''.txt''"

text \<open>An example printer: the text values of the tuple, one after the other.\<close>

definition dash_print :: "tagged_tuple \<Rightarrow> string" where
  "dash_print t = concat (map (\<lambda>(T, v). case v of Text s \<Rightarrow> s | _ \<Rightarrow> ''?'') t)"

subsection \<open>lib/component/logger.hpp: the net and the nodes\<close>

text \<open>What is written to \<^verbatim>\<open>*m_stream\<close>: a time, a literal text, the output of one
  aggregator, or \<^verbatim>\<open>std::endl\<close>.\<close>

datatype out_item = OutTime times_t | OutText string | Written string | Endl

text \<open>The logger is a template over its schedule type (\<^verbatim>\<open>tags::log_schedule\<close>, any of
  the generators of lib/option/sequence.hpp), its parent component and its aggregator
  types. They are parameters of the embedding: the log schedule (\<^verbatim>\<open>next\<close>, and
  \<^verbatim>\<open>step\<close>, which may draw from the generator held by the parent net), the parent net
  (\<^verbatim>\<open>P::net::next\<close>, \<^verbatim>\<open>P::net::update\<close>, and the storage tuples of its nodes from
  \<^verbatim>\<open>node_begin()\<close> to \<^verbatim>\<open>node_end()\<close>), the aggregators (\<^verbatim>\<open>insert\<close>, \<^verbatim>\<open>erase\<close>,
  \<^verbatim>\<open>operator+=\<close>, \<^verbatim>\<open>output\<close>, \<^verbatim>\<open>result\<close>, and the default-constructed tuple of
  aggregators \<^verbatim>\<open>tuple_type{}\<close>, one per declared tag), and the thread that
  \<^verbatim>\<open>common::parallel_for\<close> gives each node index. A storage tuple is the function from a
  tag to its value, \<^verbatim>\<open>common::get<U>(t)\<close>.\<close>

record ('sch, 'agg, 'par, 'v, 'res) logger_ops =
  schedule_next :: "'sch \<Rightarrow> times_t"
  schedule_step :: "'par \<Rightarrow> 'sch \<Rightarrow> 'sch \<times> 'par"
  parent_next :: "'par \<Rightarrow> times_t"
  parent_update :: "'par \<Rightarrow> 'par"
  parent_storages :: "'par \<Rightarrow> (tag \<Rightarrow> 'v) list"
  agg_insert :: "tag \<Rightarrow> 'v \<Rightarrow> 'agg \<Rightarrow> 'agg"
  agg_erase :: "tag \<Rightarrow> 'v \<Rightarrow> 'agg \<Rightarrow> 'agg"
  agg_add :: "tag \<Rightarrow> 'agg \<Rightarrow> 'agg \<Rightarrow> 'agg"
  agg_output :: "tag \<Rightarrow> 'agg \<Rightarrow> string"
  agg_result :: "tag \<Rightarrow> 'agg \<Rightarrow> 'res"
  agg_default :: "(tag \<times> 'agg) list"
  thread_of :: "nat \<Rightarrow> nat"

text \<open>The declaration flags \<^verbatim>\<open>value_push\<close> and \<^verbatim>\<open>parallel\<close>, and whether the plot type is
  \<^verbatim>\<open>plot::none\<close>.\<close>

record logger_flags =
  value_push :: bool
  parallel :: bool
  plot_none :: bool

text \<open>The members of the logger's \<^verbatim>\<open>net\<close>; \<open>m_plotter\<close> holds the rows sent to the plotter,
  \<open>parent_net\<close> the state of the parent components.\<close>

record ('sch, 'agg, 'par, 'res) logger_net =
  m_stream :: "out_item list"
  m_plotter :: "(times_t \<times> 'res list) list"
  m_schedule :: 'sch
  m_aggregators :: "(tag \<times> 'agg) list"
  m_threads :: nat
  parent_net :: 'par

text \<open>\<^verbatim>\<open>aggregator_erase_impl\<close>, \<^verbatim>\<open>aggregator_insert_impl\<close>, \<^verbatim>\<open>aggregator_add_impl\<close>:
  for every declared tag \<open>U\<close>, the aggregator of \<open>U\<close> is given the value of \<open>U\<close>.\<close>

definition aggregator_erase_impl ::
  "('sch, 'agg, 'par, 'v, 'res) logger_ops \<Rightarrow> (tag \<times> 'agg) list \<Rightarrow> (tag \<Rightarrow> 'v) \<Rightarrow> (tag \<times> 'agg) list" where
  "aggregator_erase_impl ops a t = map (\<lambda>(U, x). (U, agg_erase ops U (t U) x)) a"

definition aggregator_insert_impl ::
  "('sch, 'agg, 'par, 'v, 'res) logger_ops \<Rightarrow> (tag \<times> 'agg) list \<Rightarrow> (tag \<Rightarrow> 'v) \<Rightarrow> (tag \<times> 'agg) list" where
  "aggregator_insert_impl ops a t = map (\<lambda>(U, x). (U, agg_insert ops U (t U) x)) a"

definition aggregator_add_impl ::
  "('sch, 'agg, 'par, 'v, 'res) logger_ops \<Rightarrow> (tag \<times> 'agg) list \<Rightarrow> (tag \<times> 'agg) list \<Rightarrow> (tag \<times> 'agg) list" where
  "aggregator_add_impl ops a t =
     map (\<lambda>(U, x). (U, case map_of t U of Some y \<Rightarrow> agg_add ops U x y | None \<Rightarrow> x)) a"

definition aggregator_erase ::
  "('sch, 'agg, 'par, 'v, 'res) logger_ops \<Rightarrow> (tag \<Rightarrow> 'v) \<Rightarrow>
   ('sch, 'agg, 'par, 'res) logger_net \<Rightarrow> ('sch, 'agg, 'par, 'res) logger_net" where
  "aggregator_erase ops t n = n\<lparr>m_aggregators := aggregator_erase_impl ops (m_aggregators n) t\<rparr>"

definition aggregator_insert ::
  "('sch, 'agg, 'par, 'v, 'res) logger_ops \<Rightarrow> (tag \<Rightarrow> 'v) \<Rightarrow>
   ('sch, 'agg, 'par, 'res) logger_net \<Rightarrow> ('sch, 'agg, 'par, 'res) logger_net" where
  "aggregator_insert ops t n = n\<lparr>m_aggregators := aggregator_insert_impl ops (m_aggregators n) t\<rparr>"

text \<open>\<^verbatim>\<open>data_puller(common::bool_pack<true>, n)\<close>: sequentially, every node's storage tuple
  is inserted; otherwise every thread fills aggregators of its own with the nodes it is
  given, and these are added to \<^verbatim>\<open>m_aggregators\<close>.\<close>

definition data_puller ::
  "('sch, 'agg, 'par, 'v, 'res) logger_ops \<Rightarrow> logger_flags \<Rightarrow>
   ('sch, 'agg, 'par, 'res) logger_net \<Rightarrow> ('sch, 'agg, 'par, 'res) logger_net" where
  "data_puller ops fl n =
     (let nodes = parent_storages ops (parent_net n) in
      if \<not> parallel fl \<or> m_threads n = 1 then
        n\<lparr>m_aggregators := foldl (aggregator_insert_impl ops) (m_aggregators n) nodes\<rparr>
      else
        (let thread_aggregators =
               map (\<lambda>t. foldl (aggregator_insert_impl ops) (agg_default ops)
                           (map snd (filter (\<lambda>(i, s). thread_of ops i = t) (enumerate 0 nodes))))
                   [0 ..< m_threads n]
         in n\<lparr>m_aggregators := foldl (aggregator_add_impl ops) (m_aggregators n) thread_aggregators\<rparr>))"

text \<open>\<^verbatim>\<open>print_output\<close>, \<^verbatim>\<open>data_plotter\<close>, \<^verbatim>\<open>next\<close> and \<^verbatim>\<open>update\<close>.\<close>

definition print_output ::
  "('sch, 'agg, 'par, 'v, 'res) logger_ops \<Rightarrow> (tag \<times> 'agg) list \<Rightarrow> out_item list" where
  "print_output ops a = map (\<lambda>(U, x). Written (agg_output ops U x)) a"

definition data_plotter ::
  "('sch, 'agg, 'par, 'v, 'res) logger_ops \<Rightarrow> logger_flags \<Rightarrow>
   ('sch, 'agg, 'par, 'res) logger_net \<Rightarrow> ('sch, 'agg, 'par, 'res) logger_net" where
  "data_plotter ops fl n =
     (if plot_none fl then n
      else n\<lparr>m_plotter := m_plotter n @
             [(schedule_next ops (m_schedule n),
               map (\<lambda>(U, x). agg_result ops U x) (m_aggregators n))]\<rparr>)"

definition logger_next ::
  "('sch, 'agg, 'par, 'v, 'res) logger_ops \<Rightarrow> ('sch, 'agg, 'par, 'res) logger_net \<Rightarrow> times_t" where
  "logger_next ops n = std_min (schedule_next ops (m_schedule n)) (parent_next ops (parent_net n))"

definition update ::
  "('sch, 'agg, 'par, 'v, 'res) logger_ops \<Rightarrow> logger_flags \<Rightarrow>
   ('sch, 'agg, 'par, 'res) logger_net \<Rightarrow> ('sch, 'agg, 'par, 'res) logger_net" where
  "update ops fl n =
     (if schedule_next ops (m_schedule n) < parent_next ops (parent_net n) then
        (let n1 = (if \<not> value_push fl then data_puller ops fl n else n);
             n2 = n1\<lparr>m_stream := m_stream n1 @
                    [OutTime (schedule_next ops (m_schedule n1)), OutText '' '']\<rparr>;
             n3 = n2\<lparr>m_stream := m_stream n2 @ print_output ops (m_aggregators n2)\<rparr>;
             n4 = n3\<lparr>m_stream := m_stream n3 @ [Endl]\<rparr>;
             n5 = data_plotter ops fl n4;
             (sch, par) = schedule_step ops (parent_net n5) (m_schedule n5);
             n6 = n5\<lparr>m_schedule := sch, parent_net := par\<rparr>
         in if \<not> value_push fl then n6\<lparr>m_aggregators := agg_default ops\<rparr> else n6)
      else n\<lparr>parent_net := parent_update ops (parent_net n)\<rparr>)"

text \<open>The aggregators whose output a log line shows: in pull mode, those filled by
  \<^verbatim>\<open>data_puller\<close>.\<close>

definition pulled ::
  "('sch, 'agg, 'par, 'v, 'res) logger_ops \<Rightarrow> logger_flags \<Rightarrow>
   ('sch, 'agg, 'par, 'res) logger_net \<Rightarrow> (tag \<times> 'agg) list" where
  "pulled ops fl n = (if value_push fl then m_aggregators n else m_aggregators (data_puller ops fl n))"

text \<open>The logger's \<^verbatim>\<open>node\<close>: the constructor, the destructor, \<^verbatim>\<open>round_start\<close> and
  \<^verbatim>\<open>round_end\<close>, as functions of the node's storage tuple and the net.
  \<^verbatim>\<open>P::node::round_start\<close> and \<^verbatim>\<open>P::node::round_end\<close> are parameters: what the parent
  components do to the storage tuple.\<close>

definition node_init ::
  "('sch, 'agg, 'par, 'v, 'res) logger_ops \<Rightarrow> logger_flags \<Rightarrow> (tag \<Rightarrow> 'v) \<Rightarrow>
   ('sch, 'agg, 'par, 'res) logger_net \<Rightarrow> ('sch, 'agg, 'par, 'res) logger_net" where
  "node_init ops fl st n = (if value_push fl then aggregator_insert ops st n else n)"

definition node_destroy ::
  "('sch, 'agg, 'par, 'v, 'res) logger_ops \<Rightarrow> logger_flags \<Rightarrow> (tag \<Rightarrow> 'v) \<Rightarrow>
   ('sch, 'agg, 'par, 'res) logger_net \<Rightarrow> ('sch, 'agg, 'par, 'res) logger_net" where
  "node_destroy ops fl st n = (if value_push fl then aggregator_erase ops st n else n)"

definition round_start ::
  "('sch, 'agg, 'par, 'v, 'res) logger_ops \<Rightarrow> logger_flags \<Rightarrow>
   (times_t \<Rightarrow> (tag \<Rightarrow> 'v) \<Rightarrow> (tag \<Rightarrow> 'v)) \<Rightarrow> times_t \<Rightarrow> (tag \<Rightarrow> 'v) \<Rightarrow>
   ('sch, 'agg, 'par, 'res) logger_net \<Rightarrow> (tag \<Rightarrow> 'v) \<times> ('sch, 'agg, 'par, 'res) logger_net" where
  "round_start ops fl p_round_start t st n =
     (let st1 = p_round_start t st
      in (st1, if value_push fl then aggregator_erase ops st1 n else n))"

definition round_end ::
  "('sch, 'agg, 'par, 'v, 'res) logger_ops \<Rightarrow> logger_flags \<Rightarrow>
   (times_t \<Rightarrow> (tag \<Rightarrow> 'v) \<Rightarrow> (tag \<Rightarrow> 'v)) \<Rightarrow> times_t \<Rightarrow> (tag \<Rightarrow> 'v) \<Rightarrow>
   ('sch, 'agg, 'par, 'res) logger_net \<Rightarrow> (tag \<Rightarrow> 'v) \<times> ('sch, 'agg, 'par, 'res) logger_net" where
  "round_end ops fl p_round_end t st n =
     (let st1 = p_round_end t st
      in (st1, if value_push fl then aggregator_insert ops st1 n else n))"

text \<open>The life of the nodes of a net. A node is in the table from its construction to its
  destruction, with its storage tuple and whether it is inside a round (between
  \<^verbatim>\<open>round_start\<close> and \<^verbatim>\<open>round_end\<close>). An event is the construction of a node with an
  initial storage, the start of a round, the round's program giving the storage a new
  value, the end of a round, or the destruction of a node. An event that does not fit the
  life cycle of a node (an identifier used twice, a round started inside a round, a
  destruction inside a round) is refused: \<open>None\<close>.\<close>

type_synonym 'v node_table = "(device_t \<times> (tag \<Rightarrow> 'v) \<times> bool) list"

record ('sch, 'agg, 'par, 'res, 'v) world =
  logger :: "('sch, 'agg, 'par, 'res) logger_net"
  live :: "'v node_table"

datatype 'v event =
    Emplace device_t "tag \<Rightarrow> 'v"
  | RoundStart device_t times_t
  | RoundMain device_t "tag \<Rightarrow> 'v"
  | RoundEnd device_t times_t
  | Erase device_t

definition set_node :: "device_t \<Rightarrow> (tag \<Rightarrow> 'v) \<times> bool \<Rightarrow> 'v node_table \<Rightarrow> 'v node_table" where
  "set_node uid x ns = map (\<lambda>(u, y). if u = uid then (u, x) else (u, y)) ns"

definition drop_node :: "device_t \<Rightarrow> 'v node_table \<Rightarrow> 'v node_table" where
  "drop_node uid ns = filter (\<lambda>(u, y). u \<noteq> uid) ns"

fun step ::
  "('sch, 'agg, 'par, 'v, 'res) logger_ops \<Rightarrow> logger_flags \<Rightarrow>
   (times_t \<Rightarrow> (tag \<Rightarrow> 'v) \<Rightarrow> (tag \<Rightarrow> 'v)) \<Rightarrow> (times_t \<Rightarrow> (tag \<Rightarrow> 'v) \<Rightarrow> (tag \<Rightarrow> 'v)) \<Rightarrow>
   'v event \<Rightarrow> ('sch, 'agg, 'par, 'res, 'v) world \<Rightarrow> ('sch, 'agg, 'par, 'res, 'v) world option" where
  "step ops fl prs pre (Emplace uid st) w =
     (case map_of (live w) uid of
        Some x \<Rightarrow> None
      | None \<Rightarrow> Some (w\<lparr>logger := node_init ops fl st (logger w),
                         live := live w @ [(uid, st, False)]\<rparr>))"
| "step ops fl prs pre (RoundStart uid t) w =
     (case map_of (live w) uid of
        Some (st, False) \<Rightarrow>
          (let (st1, n1) = round_start ops fl prs t st (logger w)
           in Some (w\<lparr>logger := n1, live := set_node uid (st1, True) (live w)\<rparr>))
      | _ \<Rightarrow> None)"
| "step ops fl prs pre (RoundMain uid st') w =
     (case map_of (live w) uid of
        Some (st, True) \<Rightarrow> Some (w\<lparr>live := set_node uid (st', True) (live w)\<rparr>)
      | _ \<Rightarrow> None)"
| "step ops fl prs pre (RoundEnd uid t) w =
     (case map_of (live w) uid of
        Some (st, True) \<Rightarrow>
          (let (st1, n1) = round_end ops fl pre t st (logger w)
           in Some (w\<lparr>logger := n1, live := set_node uid (st1, False) (live w)\<rparr>))
      | _ \<Rightarrow> None)"
| "step ops fl prs pre (Erase uid) w =
     (case map_of (live w) uid of
        Some (st, False) \<Rightarrow>
          Some (w\<lparr>logger := node_destroy ops fl st (logger w), live := drop_node uid (live w)\<rparr>)
      | _ \<Rightarrow> None)"

fun run ::
  "('sch, 'agg, 'par, 'v, 'res) logger_ops \<Rightarrow> logger_flags \<Rightarrow>
   (times_t \<Rightarrow> (tag \<Rightarrow> 'v) \<Rightarrow> (tag \<Rightarrow> 'v)) \<Rightarrow> (times_t \<Rightarrow> (tag \<Rightarrow> 'v) \<Rightarrow> (tag \<Rightarrow> 'v)) \<Rightarrow>
   'v event list \<Rightarrow> ('sch, 'agg, 'par, 'res, 'v) world \<Rightarrow> ('sch, 'agg, 'par, 'res, 'v) world option" where
  "run ops fl prs pre [] w = Some w"
| "run ops fl prs pre (ev # evs) w =
     (case step ops fl prs pre ev w of None \<Rightarrow> None | Some w1 \<Rightarrow> run ops fl prs pre evs w1)"

text \<open>The values of tag \<open>U\<close> in the storage tuples of the nodes that are outside a round.\<close>

definition contributions :: "tag \<Rightarrow> 'v node_table \<Rightarrow> 'v multiset" where
  "contributions U ns = mset (map (\<lambda>(u, st, r). st U) (filter (\<lambda>(u, st, r). \<not> r) ns))"

text \<open>An aggregator that keeps what it was given: the multiset of the values inserted and
  the multiset of the values erased. Every aggregator's state is determined by these two.
  The inserts and erases of a tag are balanced when the erased values are among the
  inserted ones and what remains is the contributions of the nodes outside a round.\<close>

definition history_insert :: "tag \<Rightarrow> 'v \<Rightarrow> 'v multiset \<times> 'v multiset \<Rightarrow> 'v multiset \<times> 'v multiset" where
  "history_insert U v h = (add_mset v (fst h), snd h)"

definition history_erase :: "tag \<Rightarrow> 'v \<Rightarrow> 'v multiset \<times> 'v multiset \<Rightarrow> 'v multiset \<times> 'v multiset" where
  "history_erase U v h = (fst h, add_mset v (snd h))"

definition balanced :: "('sch, 'v multiset \<times> 'v multiset, 'par, 'res, 'v) world \<Rightarrow> bool" where
  "balanced w = (\<forall>(U, h) \<in> set (m_aggregators (logger w)).
       snd h \<subseteq># fst h \<and> fst h - snd h = contributions U (live w))"

definition history_ops :: "('sch, 'v multiset \<times> 'v multiset, 'par, 'v, 'res) logger_ops \<Rightarrow> bool" where
  "history_ops ops = (agg_insert ops = history_insert \<and> agg_erase ops = history_erase)"

definition well_kept :: "('sch, 'v multiset \<times> 'v multiset, 'par, 'res, 'v) world \<Rightarrow> bool" where
  "well_kept w = (balanced w \<and> distinct (map fst (live w)))"

text \<open>Example values: a logger with one aggregator for the tag \<open>x\<close>, whose output is one
  star per contribution; a periodic schedule \<open>(next, period)\<close>; a parent net that is its own
  next event time and holds two nodes with the values 3 and 4.\<close>

definition tally_ops ::
  "(times_t \<times> times_t, int multiset \<times> int multiset, times_t, int, nat) logger_ops" where
  "tally_ops = \<lparr>
     schedule_next = fst,
     schedule_step = (\<lambda>par (t, p). ((t + p, p), par)),
     parent_next = (\<lambda>par. par),
     parent_update = (\<lambda>par. par + 1),
     parent_storages = (\<lambda>par. [\<lambda>U. 3, \<lambda>U. 4]),
     agg_insert = history_insert,
     agg_erase = history_erase,
     agg_add = (\<lambda>U h k. (fst h + fst k, snd h + snd k)),
     agg_output = (\<lambda>U h. replicate (size (fst h - snd h)) CHR ''*''),
     agg_result = (\<lambda>U h. size (fst h - snd h)),
     agg_default = [(Tag ''x'', ({#}, {#}))],
     thread_of = (\<lambda>i. 0)\<rparr>"

definition pull_flags :: logger_flags where
  "pull_flags = \<lparr>value_push = False, parallel = False, plot_none = True\<rparr>"

definition push_flags :: logger_flags where
  "push_flags = \<lparr>value_push = True, parallel = False, plot_none = True\<rparr>"

definition tally_net :: "(times_t \<times> times_t, int multiset \<times> int multiset, times_t, nat) logger_net" where
  "tally_net = \<lparr>m_stream = [], m_plotter = [], m_schedule = (1, 1),
     m_aggregators = [(Tag ''x'', ({#}, {#}))], m_threads = 1, parent_net = 2\<rparr>"

definition empty_world ::
  "(times_t \<times> times_t, int multiset \<times> int multiset, times_t, nat, int) world" where
  "empty_world = \<lparr>logger = tally_net, live = []\<rparr>"

definition example_life :: "int event list" where
  "example_life = [Emplace 1 (\<lambda>U. 5), Emplace 2 (\<lambda>U. 7), RoundStart 1 0,
     RoundMain 1 (\<lambda>U. 6), RoundEnd 1 0, Erase 2]"

subsection \<open>lib/coordination/collection.hpp: fields and neighbourhood reductions\<close>

text \<open>The routines of collection.hpp are written in terms of the field type and of the
  functions \<^verbatim>\<open>nbr\<close>, \<^verbatim>\<open>fold_hood\<close>, \<^verbatim>\<open>min_hood\<close>, \<^verbatim>\<open>sum_hood\<close>, \<^verbatim>\<open>mux\<close> and
  \<^verbatim>\<open>make_tuple\<close>, which are defined in other files of the library (the field type and the
  calculus component).

  Modelled from the spec: a field (``a local value together with a sparse mapping from
  neighbour id to a value; reading a field at a neighbour id yields that neighbour's
  override if present, else the local default'') is the function from a device to the
  value read there, and pointwise operations on fields are pointwise operations on
  functions. The node that evaluates a reduction is given by its uid and by the ascending
  list of the uids of its neighbourhood, itself included.\<close>

type_synonym 'a field = "device_t \<Rightarrow> 'a"

record calc_node =
  node_uid :: device_t
  node_hood :: "device_t list"

text \<open>Modelled from the spec: \<^verbatim>\<open>fold_hood(node, call_point, accumulate, f)\<close> is the fold of
  section 4.2, ``left-fold across neighbours in ascending uid order, with the local value
  folded in exactly once''.\<close>

definition fold_hood :: "('a \<Rightarrow> 'a \<Rightarrow> 'a) \<Rightarrow> 'a field \<Rightarrow> calc_node \<Rightarrow> 'a" where
  "fold_hood accumulate f node =
     (case node_hood node of
        [] \<Rightarrow> f (node_uid node)
      | k # ks \<Rightarrow> foldl (\<lambda>a j. accumulate a (f j)) (f k) ks)"

text \<open>Modelled from the spec: \<^verbatim>\<open>nbr(node, call_point, init, combine)\<close> of section 4.4
  ``projects the context to a field (default = this device's previous value, or init if
  none), passes the field to combine, and writes combine's output into the current export
  as the new local value''. \<open>own\<close> is the device's previous export at the call point,
  \<open>ctx\<close> the values last received from its neighbours there; the result is both returned
  and exported.\<close>

definition nbr_field :: "device_t \<Rightarrow> 'a option \<Rightarrow> (device_t \<times> 'a) list \<Rightarrow> 'a \<Rightarrow> 'a field" where
  "nbr_field self own ctx init =
     (let mine = (case own of Some p \<Rightarrow> p | None \<Rightarrow> init)
      in (\<lambda>k. if k = self then mine
               else case map_of ctx k of Some v \<Rightarrow> v | None \<Rightarrow> mine))"

definition nbr :: "device_t \<Rightarrow> 'a option \<Rightarrow> (device_t \<times> 'a) list \<Rightarrow> 'a \<Rightarrow> ('a field \<Rightarrow> 'a) \<Rightarrow> 'a" where
  "nbr self own ctx init combine = combine (nbr_field self own ctx init)"

text \<open>\<^verbatim>\<open>gossip\<close> and \<^verbatim>\<open>gossip_min\<close>, as in collection.hpp.\<close>

definition gossip ::
  "calc_node \<Rightarrow> 'a option \<Rightarrow> (device_t \<times> 'a) list \<Rightarrow> 'a \<Rightarrow> ('a \<Rightarrow> 'a \<Rightarrow> 'a) \<Rightarrow> 'a" where
  "gossip node own ctx v accumulate =
     nbr (node_uid node) own ctx v (\<lambda>x. accumulate (fold_hood accumulate x node) v)"

definition gossip_min :: "calc_node \<Rightarrow> 'a::linorder option \<Rightarrow> (device_t \<times> 'a) list \<Rightarrow> 'a \<Rightarrow> 'a" where
  "gossip_min node own ctx v = gossip node own ctx v (\<lambda>x y. std_min x y)"

text \<open>Modelled from the spec: a network of devices running \<^verbatim>\<open>gossip_min\<close> in simulated
  mode (sections 4.4 to 4.7). A device holds its uid, its input value, its previous export
  at the call point of \<^verbatim>\<open>gossip_min\<close>, its context (the value last received from each
  neighbour, by ascending uid) and its storage value. A round computes the result from the
  previous export and the context, stores and exports it; the export is offered to every
  device linked to the sender and replaces the sender's entry in the receiver's context.
  \<open>fire\<close> is the round of one device with immediate delivery, \<open>fire_all\<close> a sequence of
  such rounds, \<open>sync_round\<close> one round of all devices at the same time (no device sees
  the others' exports of that round).\<close>

record device =
  d_uid :: device_t
  d_value :: int
  d_export :: "int option"
  d_context :: "(device_t \<times> int) list"
  d_storage :: "int option"

fun table_put :: "device_t \<Rightarrow> 'a \<Rightarrow> (device_t \<times> 'a) list \<Rightarrow> (device_t \<times> 'a) list" where
  "table_put u v [] = [(u, v)]"
| "table_put u v ((k, w) # r) =
     (if u < k then (u, v) # (k, w) # r
      else if u = k then (u, v) # r
      else (k, w) # table_put u v r)"

definition device_node :: "device \<Rightarrow> calc_node" where
  "device_node d = \<lparr>node_uid = d_uid d, node_hood = insort (d_uid d) (map fst (d_context d))\<rparr>"

definition round_result :: "device \<Rightarrow> int" where
  "round_result d = gossip_min (device_node d) (d_export d) (d_context d) (d_value d)"

definition deliver :: "(device_t \<Rightarrow> device_t \<Rightarrow> bool) \<Rightarrow> device_t \<Rightarrow> int \<Rightarrow> device \<Rightarrow> device" where
  "deliver linked sender r d =
     (if d_uid d \<noteq> sender \<and> linked sender (d_uid d)
      then d\<lparr>d_context := table_put sender r (d_context d)\<rparr> else d)"

definition finish_round :: "device \<Rightarrow> device" where
  "finish_round d = d\<lparr>d_export := Some (round_result d), d_storage := Some (round_result d)\<rparr>"

definition fire :: "(device_t \<Rightarrow> device_t \<Rightarrow> bool) \<Rightarrow> device_t \<Rightarrow> device list \<Rightarrow> device list" where
  "fire linked k net =
     (case find (\<lambda>d. d_uid d = k) net of
        None \<Rightarrow> net
      | Some d \<Rightarrow>
          map (\<lambda>e. if d_uid e = k then finish_round e else deliver linked k (round_result d) e) net)"

definition fire_all :: "(device_t \<Rightarrow> device_t \<Rightarrow> bool) \<Rightarrow> device_t list \<Rightarrow> device list \<Rightarrow> device list" where
  "fire_all linked ks net = foldl (\<lambda>n k. fire linked k n) net ks"

definition sync_round :: "(device_t \<Rightarrow> device_t \<Rightarrow> bool) \<Rightarrow> device list \<Rightarrow> device list" where
  "sync_round linked net =
     map (\<lambda>e. foldl (\<lambda>x d. deliver linked (d_uid d) (round_result d) x) (finish_round e) net) net"

text \<open>The scenario: uids 1, 2, 3, fully connected, values 5, 2, 9; and the six orders in
  which the three devices can take their turns within one round of the network.\<close>

definition fully_connected :: "device_t \<Rightarrow> device_t \<Rightarrow> bool" where
  "fully_connected a b = (a \<noteq> b)"

definition new_device :: "device_t \<Rightarrow> int \<Rightarrow> device" where
  "new_device u v = \<lparr>d_uid = u, d_value = v, d_export = None, d_context = [], d_storage = None\<rparr>"

definition gossip_net :: "device list" where
  "gossip_net = [new_device 1 5, new_device 2 2, new_device 3 9]"

definition round_orders :: "device_t list list" where
  "round_orders = [[1, 2, 3], [1, 3, 2], [2, 1, 3], [2, 3, 1], [3, 1, 2], [3, 2, 1]]"

text \<open>Modelled from the spec: \<^verbatim>\<open>min_hood\<close> over a field of tuples, the fold with the minimum
  of two tuples; tuples compare lexicographically (\<^verbatim>\<open>operator<\<close> on tuples), and
  \<^verbatim>\<open>min(x, y)\<close> returns \<open>y\<close> when \<open>y < x\<close> and \<open>x\<close> otherwise. \<^verbatim>\<open>make_tuple\<close> of two
  fields is the field of pairs. \<^verbatim>\<open>nbr(node, 2, node.uid)\<close> is the field that reads, at
  every neighbour, the uid that neighbour exported: its own.\<close>

definition tuple_less :: "'p::linorder \<times> device_t \<Rightarrow> 'p \<times> device_t \<Rightarrow> bool" where
  "tuple_less x y = (fst x < fst y \<or> (\<not> fst y < fst x \<and> snd x < snd y))"

definition tuple_min :: "'p::linorder \<times> device_t \<Rightarrow> 'p \<times> device_t \<Rightarrow> 'p \<times> device_t" where
  "tuple_min x y = (if tuple_less y x then y else x)"

definition make_tuple :: "'a field \<Rightarrow> 'b field \<Rightarrow> ('a \<times> 'b) field" where
  "make_tuple f g = (\<lambda>k. (f k, g k))"

definition min_hood :: "('p::linorder \<times> device_t) field \<Rightarrow> calc_node \<Rightarrow> 'p \<times> device_t" where
  "min_hood f node = fold_hood tuple_min f node"

definition nbr_uid :: "device_t field" where
  "nbr_uid = (\<lambda>k. k)"

text \<open>The parent of \<^verbatim>\<open>sp_collection\<close>:
  \<^verbatim>\<open>get<1>(min_hood(node, 0, make_tuple(nbr(node, 1, distance), nbr(node, 2, node.uid))))\<close>,
  with \<open>nbr_distance\<close> the field \<^verbatim>\<open>nbr(node, 1, distance)\<close>.\<close>

definition sp_parent :: "calc_node \<Rightarrow> 'p::linorder field \<Rightarrow> device_t" where
  "sp_parent node nbr_distance = snd (min_hood (make_tuple nbr_distance nbr_uid) node)"

text \<open>\<^verbatim>\<open>real_t\<close> with the special values of floating-point arithmetic: the infinities and
  not-a-number. Finite values are exact reals (no rounding, no overflow). Comparisons with
  not-a-number are false; \<^verbatim>\<open>max(a, b)\<close> returns \<open>b\<close> when \<open>a < b\<close> and \<open>a\<close> otherwise.\<close>

datatype real_t = Fin real | PInf | MInf | NaN

fun r_less :: "real_t \<Rightarrow> real_t \<Rightarrow> bool" where
  "r_less NaN y = False"
| "r_less x NaN = False"
| "r_less (Fin a) (Fin b) = (a < b)"
| "r_less MInf MInf = False"
| "r_less MInf y = True"
| "r_less PInf y = False"
| "r_less (Fin a) PInf = True"
| "r_less (Fin a) MInf = False"

definition r_max :: "real_t \<Rightarrow> real_t \<Rightarrow> real_t" where
  "r_max a b = (if r_less a b then b else a)"

fun r_neg :: "real_t \<Rightarrow> real_t" where
  "r_neg (Fin a) = Fin (- a)"
| "r_neg PInf = MInf"
| "r_neg MInf = PInf"
| "r_neg NaN = NaN"

fun r_add :: "real_t \<Rightarrow> real_t \<Rightarrow> real_t" where
  "r_add NaN y = NaN"
| "r_add x NaN = NaN"
| "r_add (Fin a) (Fin b) = Fin (a + b)"
| "r_add PInf MInf = NaN"
| "r_add MInf PInf = NaN"
| "r_add PInf y = PInf"
| "r_add MInf y = MInf"
| "r_add (Fin a) y = y"

definition r_sub :: "real_t \<Rightarrow> real_t \<Rightarrow> real_t" where
  "r_sub x y = r_add x (r_neg y)"

definition r_sign :: "real_t \<Rightarrow> int" where
  "r_sign x = (case x of Fin a \<Rightarrow> (if a < 0 then -1 else if a = 0 then 0 else 1)
                | PInf \<Rightarrow> 1 | MInf \<Rightarrow> -1 | NaN \<Rightarrow> 0)"

definition r_of_sign :: "int \<Rightarrow> real_t" where
  "r_of_sign s = (if s < 0 then MInf else if s = 0 then NaN else PInf)"

fun r_mul :: "real_t \<Rightarrow> real_t \<Rightarrow> real_t" where
  "r_mul NaN y = NaN"
| "r_mul x NaN = NaN"
| "r_mul (Fin a) (Fin b) = Fin (a * b)"
| "r_mul x y = r_of_sign (r_sign x * r_sign y)"

definition r_isinf :: "real_t \<Rightarrow> bool" where
  "r_isinf x = (x = PInf \<or> x = MInf)"

definition r_is_zero :: "real_t \<Rightarrow> bool" where
  "r_is_zero x = (x = Fin 0)"

text \<open>The quotient by a divisor that is not zero, and the division of a field by a scalar:
  a division by zero has no defined result (\<open>None\<close>).\<close>

fun r_quot :: "real_t \<Rightarrow> real_t \<Rightarrow> real_t" where
  "r_quot NaN y = NaN"
| "r_quot x NaN = NaN"
| "r_quot (Fin a) (Fin b) = Fin (a / b)"
| "r_quot (Fin a) y = Fin 0"
| "r_quot x (Fin b) = r_of_sign (r_sign x * (if b < 0 then -1 else 1))"
| "r_quot x y = NaN"

definition field_div :: "real_t field \<Rightarrow> real_t \<Rightarrow> real_t field option" where
  "field_div f c = (if r_is_zero c then None else Some (\<lambda>k. r_quot (f k) c))"

text \<open>Modelled from the spec: \<^verbatim>\<open>mux\<close> chooses pointwise between two fields;
  \<^verbatim>\<open>sum_hood(node, call_point, f, v)\<close> is the fold with addition where the local value is
  \<open>v\<close>.\<close>

definition mux :: "bool field \<Rightarrow> 'a field \<Rightarrow> 'a field \<Rightarrow> 'a field" where
  "mux c f g = (\<lambda>k. if c k then f k else g k)"

definition sum_hood :: "real_t field \<Rightarrow> real_t \<Rightarrow> calc_node \<Rightarrow> real_t" where
  "sum_hood f v node = fold_hood r_add (f(node_uid node := v)) node"

text \<open>The weights of \<^verbatim>\<open>wmp_collection\<close>: the field \<^verbatim>\<open>out_w\<close>, the divisor \<^verbatim>\<open>factor\<close>
  after the statement \<^verbatim>\<open>if (factor == 0) factor = 1\<close>, and the field \<^verbatim>\<open>out_w / factor\<close>
  handed to \<^verbatim>\<open>nbr(node, 1, \<dots>)\<close> for broadcast. \<open>nbrdist\<close> is the field
  \<^verbatim>\<open>nbr(node, 0, distance)\<close> and \<open>nbr_dist\<close> the field \<^verbatim>\<open>node.nbr_dist()\<close>.\<close>

record wmp_weights =
  out_w :: "real_t field"
  factor :: real_t
  sent_w :: "real_t field option"

definition wmp_collection_weights ::
  "calc_node \<Rightarrow> real_t field \<Rightarrow> real_t field \<Rightarrow> real_t \<Rightarrow> real_t \<Rightarrow> wmp_weights" where
  "wmp_collection_weights node nbrdist nbr_dist distance radius =
     (let d = (\<lambda>k. r_max (r_sub radius (nbr_dist k)) (Fin 0));
          p = mux (\<lambda>k. r_isinf distance \<or> r_isinf (nbrdist k)) (\<lambda>k. Fin 0)
                  (\<lambda>k. r_sub distance (nbrdist k));
          ow = (\<lambda>k. r_max (r_mul (d k) (p k)) (Fin 0));
          factor0 = sum_hood ow (Fin 0) node;
          factor1 = (if r_is_zero factor0 then Fin 1 else factor0)
      in \<lparr>out_w = ow, factor = factor1,
          sent_w = field_div ow factor1\<rparr>)"


section \<open>Verified properties\<close>

subsection \<open>The delay stamp of the network manager\<close>

lemma stamp_unsigned_value:
  assumes "0 \<le> dt"
  shows "char_value False (delay_stamp (t0 + dt) t0) = \<lfloor>min (dt * 128) 255\<rfloor>"
proof -
  let ?x = "std_min (dt * 128) (255::real)"
  have x: "?x = min (dt * 128) 255" by (auto simp: std_min_def min_def)
  have nn: "0 \<le> ?x" using assms by (simp add: x)
  have le: "?x \<le> 255" by (simp add: x)
  have f0: "0 \<le> \<lfloor>?x\<rfloor>" using nn by simp
  have f1: "\<lfloor>?x\<rfloor> \<le> 255" using le by (simp add: floor_le_iff)
  have "uint (word_of_int \<lfloor>?x\<rfloor> :: byte) = \<lfloor>?x\<rfloor> mod 256"
    by (simp add: uint_word_of_int)
  also have "\<dots> = \<lfloor>?x\<rfloor>" using f0 f1 by simp
  finally show ?thesis using nn
    by (simp add: char_value_def delay_stamp_def to_char_def trunc_zero_def x)
qed

text \<open>Where plain \<^verbatim>\<open>char\<close> is unsigned, a delay of at most 255/128 is read back with an
  error below 1/128, and a longer delay is read back as 255/128.\<close>

lemma stamp_roundtrip_unsigned:
  assumes "0 \<le> dt" "dt \<le> 255/128"
  shows "stamp_delay False (delay_stamp (t0 + dt) t0) \<le> dt \<and>
         dt - stamp_delay False (delay_stamp (t0 + dt) t0) < 1/128"
proof -
  have m: "min (dt * 128) 255 = dt * 128" using assms by simp
  have v: "stamp_delay False (delay_stamp (t0 + dt) t0) = of_int \<lfloor>dt * 128\<rfloor> / 128"
    using stamp_unsigned_value[OF assms(1), of t0] by (simp add: stamp_delay_def m)
  have a: "of_int \<lfloor>dt * 128\<rfloor> \<le> dt * 128" by simp
  have b: "dt * 128 < of_int \<lfloor>dt * 128\<rfloor> + 1" by linarith
  show ?thesis unfolding v using a b by (simp add: field_simps)
qed

lemma stamp_clamp_unsigned:
  assumes "255/128 \<le> dt"
  shows "stamp_delay False (delay_stamp (t0 + dt) t0) = 255/128"
proof -
  have "0 \<le> dt" using assms by simp
  moreover have "min (dt * 128) 255 = 255" using assms by simp
  ultimately show ?thesis
    using stamp_unsigned_value[of dt t0] by (simp add: stamp_delay_def)
qed

text \<open>Below one time unit the stamp byte is below 128 and reads the same whether plain
  \<^verbatim>\<open>char\<close> is signed or not.\<close>

lemma stamp_signed_below_one:
  assumes "0 \<le> dt" "dt < 1"
  shows "stamp_delay True (delay_stamp (t0 + dt) t0) = stamp_delay False (delay_stamp (t0 + dt) t0)"
proof -
  let ?n = "\<lfloor>min (dt * 128) 255\<rfloor>"
  have m: "min (dt * 128) 255 = dt * 128" using assms by simp
  have n0: "0 \<le> ?n" using assms by (simp add: m)
  have n1: "?n < 128" using assms by (simp add: m floor_less_iff)
  have st: "delay_stamp (t0 + dt) t0 = word_of_int ?n"
    using assms by (simp add: delay_stamp_def to_char_def trunc_zero_def std_min_def min_def)
  have "sint (word_of_int ?n :: byte) = ?n"
    using n0 n1 by (simp add: sint_sbintrunc' signed_take_bit_int_eq_self)
  moreover have "uint (word_of_int ?n :: byte) = ?n"
    using n0 n1 by (simp add: uint_word_of_int)
  ultimately show ?thesis by (simp add: stamp_delay_def char_value_def st)
qed

text \<open>
  C1. The manager appends one byte \<open>min((now - send time) * 128, 255)\<close> cast to
  \<^verbatim>\<open>char\<close> and the receiver sets the message time to \<open>now - byte / 128\<close>, the byte
  being read as a plain \<^verbatim>\<open>char\<close>. Where plain \<^verbatim>\<open>char\<close> is signed, the promised
  back-dating fails for a delay within the stated range: a message scheduled at time 0 and
  sent at time 3/2 leaves with the trailing byte 192; a receiver that hears it at time 3/2
  reads the byte as -64 and dates the message at time 2, half a time unit in the future,
  instead of a time within 1/128 of the send time 0. (With an unsigned \<^verbatim>\<open>char\<close> the same
  message is dated at time 0.)
\<close>

theorem signed_char_stamp_forward_dates:
  "manage True True 1 (successful_iteration (3/2)) (send 0 [1] idle_network)
     = Inr (idle_network\<lparr>sent_log := [(1, [1, 192], 0)]\<rparr>) \<and>
   manage True True 2
       (hearing_iteration (3/2) \<lparr>time = 0, device = 1, power = 0, content = [1, 192]\<rparr>)
       idle_network
     = Inr (idle_network\<lparr>node_received := [\<lparr>time = 2, device = 1, power = 0, content = [1]\<rparr>]\<rparr>) \<and>
   manage False True 2
       (hearing_iteration (3/2) \<lparr>time = 0, device = 1, power = 0, content = [1, 192]\<rparr>)
       idle_network
     = Inr (idle_network\<lparr>node_received := [\<lparr>time = 0, device = 1, power = 0, content = [1]\<rparr>]\<rparr>)"
  by (simp add: manage_def manage_send_def manage_receive_def send_def idle_network_def
      successful_iteration_def hearing_iteration_def no_message_def delay_stamp_def
      stamp_delay_def to_char_def trunc_zero_def std_min_def char_value_def Let_def)

subsection \<open>Retrying a failed send\<close>










subsection \<open>The arcs file\<close>

lemma read_arc_pair:
  "read_arc (fresh (Tok a # Tok b # ts)) row = (Inr True, fresh ts, (a, b))"
  by (simp add: read_arc_def stream_get_def fresh_def)

lemma read_arcs_fresh:
  "read_arcs (fresh ts) row links =
     (if ends_at_eof ts then Inr (links @ complete_pairs ts) else Inl AssertionFailed)"
proof (induction ts arbitrary: row links rule: ends_at_eof.induct)
  case (1 a b ts)
  show ?case
    using 1[of "(a, b)" "links @ [(a, b)]"]
    by (subst read_arcs.simps) (simp add: read_arc_pair)
qed (subst read_arcs.simps,
     simp add: read_arc_def stream_get_def fresh_def split: token.splits)+

text \<open>
  C7. Reading the arcs stream ends normally exactly when the first failed extraction is the
  end of the file (otherwise the assertion fails), and then the connect calls made are one
  call \<open>from \<rightarrow> to\<close> per pair read, in the order of the file, after the links that were
  there: each pair \<open>(a, b)\<close> is linked as often as it was there before plus as often as the
  file holds it, so the reverse link \<open>(b, a)\<close> appears only if it was there or the file holds
  that pair too.
\<close>

theorem read_arcs_one_directed_link_per_pair:
  "read_arcs (fresh ts) row links =
     (if ends_at_eof ts then Inr (links @ complete_pairs ts) else Inl AssertionFailed) \<and>
   (\<forall>links'. read_arcs (fresh ts) row links = Inr links' \<longrightarrow>
      (\<forall>a b. count_list links' (a, b) =
               count_list links (a, b) + count_list (complete_pairs ts) (a, b)) \<and>
      (\<forall>a b. (b, a) \<notin> set links \<and> (b, a) \<notin> set (complete_pairs ts) \<longrightarrow>
               (b, a) \<notin> set links'))"
proof -
  have eq: "read_arcs (fresh ts) row links =
     (if ends_at_eof ts then Inr (links @ complete_pairs ts) else Inl AssertionFailed)"
    by (rule read_arcs_fresh)
  have "links' = links @ complete_pairs ts"
    if "read_arcs (fresh ts) row links = Inr links'" for links'
    using that eq by (simp split: if_splits)
  then show ?thesis using eq by auto
qed

theorem read_arcs_one_directed_link_per_pair_witness:
  "read_arcs (fresh [Tok 1, Tok 2, Tok 2, Tok 3, Tok 9]) (0, 0) [] = Inr [(1, 2), (2, 3)] \<and>
   count_list [(1, 2), (2, 3)] (1, 2 :: nat) = (1 :: nat) \<and>
   (2, 1) \<notin> set [(1, 2), (2, 3 :: nat)] \<and>
   read_arcs (fresh [Tok 1, Tok 2, Garbage, Tok 3]) (0, 0) [] = Inl AssertionFailed"
  using read_arcs_one_directed_link_per_pair[of "[Tok 1, Tok 2, Tok 2, Tok 3, Tok 9]" "(0, 0)" "[]"]
    read_arcs_one_directed_link_per_pair[of "[Tok 1, Tok 2, Garbage, Tok 3]" "(0, 0)" "[]"]
  by simp

subsection \<open>The nodes file\<close>

lemma tuple_set_tags: "map fst (tuple_set S v row) = map fst row"
  by (induction row) auto

lemma read_row_tags:
  "read_row tags inp row = (r, inp', row') \<Longrightarrow> map fst row' = map fst row"
proof (induction tags arbitrary: inp row)
  case Nil
  then show ?case by simp
next
  case (Cons S Ss)
  obtain inp1 v where g: "stream_get (Number 0) inp (get_or S row (Number 0)) = (inp1, v)"
    by (cases "stream_get (Number 0) inp (get_or S row (Number 0))")
  show ?case
  proof (cases "failbit inp1")
    case True
    then show ?thesis using Cons.prems g by (auto simp: Let_def tuple_set_tags split: if_splits)
  next
    case False
    then have "read_row Ss inp1 (tuple_set S v row) = (r, inp', row')"
      using Cons.prems g by (simp add: Let_def)
    from Cons.IH[OF this] show ?thesis by (simp add: tuple_set_tags)
  qed
qed

text \<open>Every node emplaced by \<^verbatim>\<open>read_nodes\<close> carries a start attribute; when
  \<^verbatim>\<open>tags::start\<close> is not a declared attribute, it is the member \<^verbatim>\<open>m_start\<close>.\<close>

lemma read_nodes_start:
  assumes "read_nodes tags ms inp row nodes = Some (Inr nodes')" "map fst row = tags"
    "\<forall>n \<in> set nodes. Start \<in> fst ` set n \<and>
       (Start \<notin> set tags \<longrightarrow> map_of n Start = Some (Number (of_nat ms)))"
  shows "\<forall>n \<in> set nodes'. Start \<in> fst ` set n \<and>
       (Start \<notin> set tags \<longrightarrow> map_of n Start = Some (Number (of_nat ms)))"
  using assms
proof (induction tags ms inp row nodes rule: read_nodes.induct)
  case (1 ms inp row nodes)
  then show ?case by (simp add: read_nodes.simps(1))
next
  case (2 S Ss ms inp row nodes)
  obtain r inp' row' where rr: "read_row (S # Ss) inp row = (r, inp', row')"
    by (cases "read_row (S # Ss) inp row")
  have tg: "map fst row' = S # Ss" using read_row_tags[OF rr] "2.prems"(2) by simp
  show ?case
  proof (cases r)
    case (Inl e)
    then show ?thesis using "2.prems"(1) rr by (subst (asm) read_nodes.simps) simp
  next
    case (Inr ok)
    show ?thesis
    proof (cases ok)
      case False
      then show ?thesis using "2.prems" rr Inr by (subst (asm) read_nodes.simps) simp
    next
      case True
      have keys: "fst ` set row' = set (S # Ss)"
        using arg_cong[OF tg, of set] by simp
      have st: "Start \<in> fst ` set (push_time (S # Ss) ms row')"
        by (cases "Start \<in> set (S # Ss)") (simp_all add: push_time_def keys)
      have df: "map_of (push_time (S # Ss) ms row') Start = Some (Number (of_nat ms))"
        if "Start \<notin> set (S # Ss)"
      proof -
        have "Start \<notin> fst ` set row'" using that keys by simp
        then have "map_of row' Start = None" by (simp add: map_of_eq_None_iff)
        then show ?thesis using that by (simp add: push_time_def map_add_Some_iff)
      qed
      have okT: "ok = True" using True by simp
      have a: "read_nodes (S # Ss) ms inp' row' (nodes @ [push_time (S # Ss) ms row'])
          = Some (Inr nodes')"
        using "2.prems"(1) rr Inr True by (subst (asm) read_nodes.simps) simp
      have b: "\<forall>n \<in> set (nodes @ [push_time (S # Ss) ms row']).
          Start \<in> fst ` set n \<and>
          (Start \<notin> set (S # Ss) \<longrightarrow> map_of n Start = Some (Number (of_nat ms)))"
        using "2.prems"(3) st df by auto
      show ?thesis
        by (rule "2.IH"[OF rr[symmetric] Inr okT refl a tg b])
    qed
  qed
qed

text \<open>
  C8. A net is initialised with \<^verbatim>\<open>tags::start\<close> set to 5/2 and one declared node attribute
  other than \<^verbatim>\<open>tags::start\<close>; the nodes file holds one row. The emplaced node carries the
  start 2, not 5/2: the default passes through the member \<^verbatim>\<open>size_t m_start\<close>. (With the
  start attribute declared and read from the file, a start of 1/2 is kept as it is; with no
  \<^verbatim>\<open>tags::start\<close> given, the appended start is 0.)
\<close>

theorem default_start_is_truncated:
  "graph_spawner_net [Tag ''x''] [(Start, Number (5/2))] [Tok (Number 7)] []
     = Some (Inr \<lparr>m_start = 2, emplaced = [[(Tag ''x'', Number 7), (Start, Number 2)]],
                  connected = []\<rparr>) \<and>
   graph_spawner_net [Start, Tag ''x''] [(Start, Number (5/2))]
       [Tok (Number (1/2)), Tok (Number 7)] []
     = Some (Inr \<lparr>m_start = 2, emplaced = [[(Start, Number (1/2)), (Tag ''x'', Number 7)]],
                  connected = []\<rparr>) \<and>
   graph_spawner_net [Tag ''x''] [] [Tok (Number 7)] []
     = Some (Inr \<lparr>m_start = 0, emplaced = [[(Tag ''x'', Number 7), (Start, Number 0)]],
                  connected = []\<rparr>)"
  by code_simp

subsection \<open>The logger's output sink\<close>

text \<open>
  C6. The sink of the logger is decided by the value of \<^verbatim>\<open>tags::output\<close>: a stream pointer
  is used as it is and stays the caller's (\<^verbatim>\<open>&std::cout\<close> when the tag is not given); a
  non-empty path that does not end in \<open>/\<close> or \<open>\\<close> opens a file at that path; a path ending
  in \<open>/\<close> or \<open>\\<close> opens the file whose name is the path followed by the value of
  \<^verbatim>\<open>tags::name\<close> and an underscore (when the name is not empty), the printed initialisation
  parameters without the tags name, output and plotter, and \<open>.txt\<close>.
\<close>

theorem output_sink:
  "(map_of t Output = Some (Pointer p) \<longrightarrow> logger_stream pr t = Some (Borrowed p)) \<and>
   (map_of t Output = None \<longrightarrow> logger_stream pr t = Some (Borrowed stdout_stream)) \<and>
   (map_of t Output = Some (Text s) \<and> s \<noteq> [] \<and> \<not> is_directory s \<longrightarrow>
      logger_stream pr t = Some (OwnedFile s)) \<and>
   (map_of t Output = Some (Text s) \<and> is_directory s \<longrightarrow>
      logger_stream pr t = Some (OwnedFile (s @ generated_name pr t)))"
  by (auto simp: logger_stream_def make_stream_def make_stream_path_def get_or_def
      is_directory_def generated_name_def skip_tags_def)

theorem output_sink_witness:
  "logger_stream dash_print [(Output, Pointer 5)] = Some (Borrowed 5) \<and>
   logger_stream dash_print [(Name, Text ''run'')] = Some (Borrowed stdout_stream) \<and>
   logger_stream dash_print [(Output, Text ''out.txt'')] = Some (OwnedFile ''out.txt'') \<and>
   logger_stream dash_print [(Name, Text ''run''), (Output, Text ''logs/''), (Tag ''seed'', Text ''42'')]
     = Some (OwnedFile ''logs/run_42.txt'') \<and>
   logger_stream dash_print [(Output, Text ''logs/''), (Tag ''seed'', Text ''42'')]
     = Some (OwnedFile ''logs/42.txt'')"
  using output_sink[of "[(Output, Pointer 5)]" 5 dash_print "[]"]
    output_sink[of "[(Name, Text ''run'')]" 0 dash_print "[]"]
    output_sink[of "[(Output, Text ''out.txt'')]" 0 dash_print "''out.txt''"]
    output_sink[of "[(Name, Text ''run''), (Output, Text ''logs/''), (Tag ''seed'', Text ''42'')]" 0 dash_print "''logs/''"]
    output_sink[of "[(Output, Text ''logs/''), (Tag ''seed'', Text ''42'')]" 0 dash_print "''logs/''"]
  by (simp add: is_directory_def generated_name_def name_of_def get_or_def dash_print_def)

subsection \<open>The logger's update\<close>

lemma insert_impl_tags: "map fst (aggregator_insert_impl ops a t) = map fst a"
  by (induction a) (auto simp: aggregator_insert_impl_def)

lemma add_impl_tags: "map fst (aggregator_add_impl ops a t) = map fst a"
  by (induction a) (auto simp: aggregator_add_impl_def)

lemma foldl_insert_tags: "map fst (foldl (aggregator_insert_impl ops) a ts) = map fst a"
  by (induction ts arbitrary: a) (simp_all add: insert_impl_tags)

lemma foldl_add_tags: "map fst (foldl (aggregator_add_impl ops) a ts) = map fst a"
  by (induction ts arbitrary: a) (simp_all add: add_impl_tags)

lemma data_puller_frame:
  "m_stream (data_puller ops fl n) = m_stream n \<and>
   m_schedule (data_puller ops fl n) = m_schedule n \<and>
   parent_net (data_puller ops fl n) = parent_net n \<and>
   m_plotter (data_puller ops fl n) = m_plotter n \<and>
   map fst (m_aggregators (data_puller ops fl n)) = map fst (m_aggregators n)"
  by (simp add: data_puller_def Let_def foldl_insert_tags foldl_add_tags)

lemma data_plotter_frame:
  "m_stream (data_plotter ops fl n) = m_stream n \<and>
   m_schedule (data_plotter ops fl n) = m_schedule n \<and>
   parent_net (data_plotter ops fl n) = parent_net n \<and>
   m_aggregators (data_plotter ops fl n) = m_aggregators n"
  by (simp add: data_plotter_def)

lemma update_log:
  assumes "schedule_next ops (m_schedule n) < parent_next ops (parent_net n)"
  shows "m_stream (update ops fl n) = m_stream n @
           OutTime (schedule_next ops (m_schedule n)) # OutText '' '' #
           print_output ops (pulled ops fl n) @ [Endl]"
    and "m_schedule (update ops fl n) = fst (schedule_step ops (parent_net n) (m_schedule n))"
    and "parent_net (update ops fl n) = snd (schedule_step ops (parent_net n) (m_schedule n))"
    and "m_aggregators (update ops fl n) =
           (if value_push fl then m_aggregators n else agg_default ops)"
  using assms
  by (simp_all add: update_def Let_def pulled_def data_puller_frame data_plotter_frame
      split: prod.splits)

lemma update_delegate:
  assumes "\<not> schedule_next ops (m_schedule n) < parent_next ops (parent_net n)"
  shows "update ops fl n = n\<lparr>parent_net := parent_update ops (parent_net n)\<rparr>"
  using assms by (simp add: update_def)

lemma print_output_no_endl: "count_list (print_output ops a) Endl = 0"
  by (induction a) (auto simp: print_output_def)

text \<open>
  C5. When the log schedule's next time is strictly smaller than the parent's next event
  time, \<^verbatim>\<open>update\<close> appends exactly one line to the stream: the scheduled time, a space,
  one output per declared aggregator (of the aggregators filled from the nodes, in pull
  mode) and the end of the line; the schedule is the result of one step; in pull mode the
  aggregators are the default-constructed ones afterwards, in push mode they are unchanged.
  Otherwise nothing is written, the schedule is unchanged, and only the parent is updated.
  \<^verbatim>\<open>next\<close> is the minimum of the schedule's and the parent's next time.
\<close>

theorem logger_update_writes_one_line:
  "(schedule_next ops (m_schedule n) < parent_next ops (parent_net n) \<longrightarrow>
      m_stream (update ops fl n) = m_stream n @
        OutTime (schedule_next ops (m_schedule n)) # OutText '' '' #
        map (\<lambda>(U, x). Written (agg_output ops U x)) (pulled ops fl n) @ [Endl] \<and>
      map fst (pulled ops fl n) = map fst (m_aggregators n) \<and>
      count_list (m_stream (update ops fl n)) Endl = count_list (m_stream n) Endl + 1 \<and>
      m_schedule (update ops fl n) = fst (schedule_step ops (parent_net n) (m_schedule n)) \<and>
      m_aggregators (update ops fl n) =
        (if value_push fl then m_aggregators n else agg_default ops)) \<and>
   (\<not> schedule_next ops (m_schedule n) < parent_next ops (parent_net n) \<longrightarrow>
      update ops fl n = n\<lparr>parent_net := parent_update ops (parent_net n)\<rparr> \<and>
      m_stream (update ops fl n) = m_stream n \<and>
      m_schedule (update ops fl n) = m_schedule n) \<and>
   logger_next ops n = min (schedule_next ops (m_schedule n)) (parent_next ops (parent_net n))"
proof -
  have tags: "map fst (pulled ops fl n) = map fst (m_aggregators n)"
    by (simp add: pulled_def data_puller_frame)
  have nx: "logger_next ops n
      = min (schedule_next ops (m_schedule n)) (parent_next ops (parent_net n))"
    by (auto simp: logger_next_def std_min_def min_def)
  show ?thesis
  proof (cases "schedule_next ops (m_schedule n) < parent_next ops (parent_net n)")
    case True
    note u = update_log[OF True, of fl]
    have "count_list (m_stream (update ops fl n)) Endl = count_list (m_stream n) Endl + 1"
      by (simp add: u(1) print_output_no_endl)
    then show ?thesis using True u tags nx by (simp add: print_output_def)
  next
    case False
    then show ?thesis using update_delegate[OF False, of fl] nx by simp
  qed
qed

theorem logger_update_writes_one_line_witness:
  "schedule_next tally_ops (m_schedule tally_net) < parent_next tally_ops (parent_net tally_net) \<and>
   m_stream (update tally_ops pull_flags tally_net)
     = [OutTime 1, OutText '' '', Written ''**'', Endl] \<and>
   m_schedule (update tally_ops pull_flags tally_net) = (2, 1) \<and>
   m_aggregators (update tally_ops pull_flags tally_net) = [(Tag ''x'', ({#}, {#}))] \<and>
   \<not> schedule_next tally_ops (m_schedule (update tally_ops pull_flags tally_net))
       < parent_next tally_ops (parent_net (update tally_ops pull_flags tally_net)) \<and>
   update tally_ops pull_flags (update tally_ops pull_flags tally_net)
     = (update tally_ops pull_flags tally_net)\<lparr>parent_net := 3\<rparr> \<and>
   logger_next tally_ops tally_net = 1"
proof -
  have p: "pulled tally_ops pull_flags tally_net = [(Tag ''x'', ({#4, 3#}, {#}))]"
    by (simp add: pulled_def pull_flags_def tally_ops_def tally_net_def data_puller_def
        aggregator_insert_impl_def history_insert_def)
  have a: "schedule_next tally_ops (m_schedule tally_net) = 1"
    "parent_next tally_ops (parent_net tally_net) = 2"
    "schedule_step tally_ops (parent_net tally_net) (m_schedule tally_net) = ((2, 1), 2)"
    "agg_default tally_ops = [(Tag ''x'', ({#}, {#}))]" "m_stream tally_net = []"
    "agg_output tally_ops (Tag ''x'') ({#4, 3#}, {#}) = ''**''"
    "\<not> value_push pull_flags"
    by (simp_all add: tally_ops_def tally_net_def pull_flags_def)
  note first = logger_update_writes_one_line[of tally_ops tally_net pull_flags]
  have s1: "m_stream (update tally_ops pull_flags tally_net)
      = [OutTime 1, OutText '' '', Written ''**'', Endl]"
    and s2: "m_schedule (update tally_ops pull_flags tally_net) = (2, 1)"
    and s3: "m_aggregators (update tally_ops pull_flags tally_net) = [(Tag ''x'', ({#}, {#}))]"
    and s4: "logger_next tally_ops tally_net = 1"
    using first by (simp_all add: a p)
  have s5: "parent_net (update tally_ops pull_flags tally_net) = 2"
    using update_log(3)[of tally_ops tally_net pull_flags] by (simp add: a)
  have b: "schedule_next tally_ops (2, 1) = 2" "parent_next tally_ops 2 = 2"
    "parent_update tally_ops 2 = 3"
    by (simp_all add: tally_ops_def)
  have s6: "update tally_ops pull_flags (update tally_ops pull_flags tally_net)
     = (update tally_ops pull_flags tally_net)\<lparr>parent_net := 3\<rparr>"
    using logger_update_writes_one_line[of tally_ops "update tally_ops pull_flags tally_net" pull_flags]
    by (simp add: s2 s5 b)
  show ?thesis using s1 s2 s3 s4 s5 s6 by (simp add: a b)
qed

subsection \<open>Pushed values: inserts and erases are balanced\<close>

lemma contributions_append:
  "contributions U (ns @ [(uid, st, False)]) = add_mset (st U) (contributions U ns)"
  by (simp add: contributions_def)

lemma contributions_set_node:
  assumes "distinct (map fst ns)" "map_of ns uid = Some (st, r)"
  shows "contributions U (set_node uid (st', r') ns) + (if r then {#} else {#st U#})
       = contributions U ns + (if r' then {#} else {#st' U#})"
  using assms
proof (induction ns)
  case Nil
  then show ?case by simp
next
  case (Cons a ns)
  obtain u y q where a: "a = (u, y, q)" by (cases a)
  show ?case
  proof (cases "u = uid")
    case True
    have "uid \<notin> fst ` set ns" using Cons.prems(1) a True by simp
    then have same: "set_node uid (st', r') ns = ns"
      by (induction ns) (auto simp: set_node_def)
    have "y = st" "q = r" using Cons.prems(2) a True by simp_all
    then show ?thesis using a True same
      by (simp add: contributions_def set_node_def)
  next
    case False
    have d: "distinct (map fst ns)" using Cons.prems(1) by simp
    have m: "map_of ns uid = Some (st, r)" using Cons.prems(2) a False by simp
    have "contributions U (set_node uid (st', r') (a # ns)) =
          (if q then {#} else {#y U#}) + contributions U (set_node uid (st', r') ns)"
      using a False by (simp add: contributions_def set_node_def)
    moreover have "contributions U (a # ns) = (if q then {#} else {#y U#}) + contributions U ns"
      using a by (simp add: contributions_def)
    ultimately show ?thesis using Cons.IH[OF d m] by (simp add: ac_simps)
  qed
qed

lemma contributions_drop_node:
  assumes "distinct (map fst ns)" "map_of ns uid = Some (st, r)"
  shows "contributions U (drop_node uid ns) + (if r then {#} else {#st U#}) = contributions U ns"
  using assms
proof (induction ns)
  case Nil
  then show ?case by simp
next
  case (Cons a ns)
  obtain u y q where a: "a = (u, y, q)" by (cases a)
  show ?case
  proof (cases "u = uid")
    case True
    have "uid \<notin> fst ` set ns" using Cons.prems(1) a True by simp
    then have same: "drop_node uid ns = ns"
      by (induction ns) (auto simp: drop_node_def)
    have "y = st" "q = r" using Cons.prems(2) a True by simp_all
    then show ?thesis using a True same
      by (simp add: contributions_def drop_node_def)
  next
    case False
    have d: "distinct (map fst ns)" using Cons.prems(1) by simp
    have m: "map_of ns uid = Some (st, r)" using Cons.prems(2) a False by simp
    have "contributions U (drop_node uid (a # ns)) =
          (if q then {#} else {#y U#}) + contributions U (drop_node uid ns)"
      using a False by (simp add: contributions_def drop_node_def)
    moreover have "contributions U (a # ns) = (if q then {#} else {#y U#}) + contributions U ns"
      using a by (simp add: contributions_def)
    ultimately show ?thesis using Cons.IH[OF d m] by (simp add: ac_simps)
  qed
qed

lemma set_node_keys: "map fst (set_node uid x ns) = map fst ns"
  by (induction ns) (auto simp: set_node_def)

lemma drop_node_distinct: "distinct (map fst ns) \<Longrightarrow> distinct (map fst (drop_node uid ns))"
  by (simp add: drop_node_def distinct_map_filter)

lemma ms_insert:
  "E \<subseteq># I \<Longrightarrow> I - E = C \<Longrightarrow> E \<subseteq># add_mset x I \<and> add_mset x I - E = add_mset x C"
proof -
  assume "E \<subseteq># I" "I - E = C"
  then have I: "I = E + C" by (metis subset_mset.add_diff_inverse)
  show ?thesis unfolding I by simp
qed

lemma ms_erase:
  assumes "E \<subseteq># I" "I - E = add_mset x C"
  shows "add_mset x E \<subseteq># I \<and> I - add_mset x E = C"
proof -
  have I: "I = E + add_mset x C" using assms by (metis subset_mset.add_diff_inverse)
  show ?thesis unfolding I by simp
qed

lemma balanced_insert:
  assumes "history_ops ops" "balanced w"
    "\<And>U. contributions U ns' = add_mset (st U) (contributions U (live w))"
  shows "balanced (w\<lparr>logger := aggregator_insert ops st (logger w), live := ns'\<rparr>)"
  using assms
  by (auto simp: balanced_def aggregator_insert_def aggregator_insert_impl_def history_ops_def
      history_insert_def dest!: bspec intro: ms_insert[THEN conjunct1] ms_insert[THEN conjunct2])

lemma balanced_erase:
  assumes "history_ops ops" "balanced w"
    "\<And>U. U \<in> fst ` set (m_aggregators (logger w)) \<Longrightarrow>
       contributions U (live w) = add_mset (st U) (contributions U ns')"
  shows "balanced (w\<lparr>logger := aggregator_erase ops st (logger w), live := ns'\<rparr>)"
  unfolding balanced_def
proof (clarsimp simp: aggregator_erase_def aggregator_erase_impl_def)
  fix U I E
  assume m: "(U, I, E) \<in> set (m_aggregators (logger w))"
  then have "E \<subseteq># I" "I - E = contributions U (live w)"
    using assms(2) by (auto simp: balanced_def)
  moreover have "contributions U (live w) = add_mset (st U) (contributions U ns')"
    using assms(3)[of U] m by force
  ultimately have "add_mset (st U) E \<subseteq># I \<and> I - add_mset (st U) E = contributions U ns'"
    using ms_erase by metis
  then show "snd (agg_erase ops U (st U) (I, E)) \<subseteq># fst (agg_erase ops U (st U) (I, E)) \<and>
       fst (agg_erase ops U (st U) (I, E)) - snd (agg_erase ops U (st U) (I, E))
         = contributions U ns'"
    using assms(1) by (simp add: history_ops_def history_erase_def)
qed

lemma insert_tags: "map fst (m_aggregators (aggregator_insert ops st n)) = map fst (m_aggregators n)"
  by (simp add: aggregator_insert_def aggregator_insert_impl_def case_prod_unfold comp_def)

lemma erase_tags: "map fst (m_aggregators (aggregator_erase ops st n)) = map fst (m_aggregators n)"
  by (simp add: aggregator_erase_def aggregator_erase_impl_def case_prod_unfold comp_def)

lemma step_well_kept:
  assumes h: "history_ops ops" and vp: "value_push fl"
    and s: "step ops fl prs pre ev w = Some w'" and k: "well_kept w"
    and p: "\<forall>t st. \<forall>U \<in> fst ` set (m_aggregators (logger w)). prs t st U = st U"
  shows "well_kept w' \<and> map fst (m_aggregators (logger w')) = map fst (m_aggregators (logger w))"
proof -
  have b: "balanced w" and d: "distinct (map fst (live w))" using k by (simp_all add: well_kept_def)
  show ?thesis
  proof (cases ev)
    case (Emplace uid st)
    then have fresh: "map_of (live w) uid = None"
      and w': "w' = w\<lparr>logger := aggregator_insert ops st (logger w), live := live w @ [(uid, st, False)]\<rparr>"
      using s vp by (auto simp: node_init_def split: option.splits)
    have "uid \<notin> fst ` set (live w)" using fresh by (simp add: map_of_eq_None_iff)
    then have "distinct (map fst (live w @ [(uid, st, False)]))" using d by simp
    moreover have "balanced w'" unfolding w'
      by (rule balanced_insert[OF h b]) (rule contributions_append)
    ultimately show ?thesis by (simp add: well_kept_def w' insert_tags)
  next
    case (RoundStart uid t)
    then obtain st where m: "map_of (live w) uid = Some (st, False)"
      and w': "w' = w\<lparr>logger := aggregator_erase ops (prs t st) (logger w),
                        live := set_node uid (prs t st, True) (live w)\<rparr>"
      using s vp by (auto simp: round_start_def Let_def split: option.splits bool.splits)
    have c: "contributions U (live w)
        = add_mset (prs t st U) (contributions U (set_node uid (prs t st, True) (live w)))"
      if "U \<in> fst ` set (m_aggregators (logger w))" for U
    proof -
      have "prs t st U = st U" using p that by blast
      then show ?thesis using contributions_set_node[OF d m, of U "prs t st" True] by simp
    qed
    have "balanced w'" unfolding w' by (rule balanced_erase[OF h b]) (rule c)
    then show ?thesis using d by (simp add: well_kept_def w' erase_tags set_node_keys)
  next
    case (RoundMain uid st')
    then obtain st where m: "map_of (live w) uid = Some (st, True)"
      and w': "w' = w\<lparr>live := set_node uid (st', True) (live w)\<rparr>"
      using s by (auto split: option.splits bool.splits)
    have "contributions U (set_node uid (st', True) (live w)) = contributions U (live w)" for U
      using contributions_set_node[OF d m, of U st' True] by simp
    then have "balanced w'" using b by (simp add: balanced_def w')
    then show ?thesis using d by (simp add: well_kept_def w' set_node_keys)
  next
    case (RoundEnd uid t)
    then obtain st where m: "map_of (live w) uid = Some (st, True)"
      and w': "w' = w\<lparr>logger := aggregator_insert ops (pre t st) (logger w),
                        live := set_node uid (pre t st, False) (live w)\<rparr>"
      using s vp by (auto simp: round_end_def Let_def split: option.splits bool.splits)
    have c: "contributions U (set_node uid (pre t st, False) (live w))
        = add_mset (pre t st U) (contributions U (live w))" for U
      using contributions_set_node[OF d m, of U "pre t st" False] by simp
    have "balanced w'" unfolding w' by (rule balanced_insert[OF h b]) (rule c)
    then show ?thesis using d by (simp add: well_kept_def w' insert_tags set_node_keys)
  next
    case (Erase uid)
    then obtain st where m: "map_of (live w) uid = Some (st, False)"
      and w': "w' = w\<lparr>logger := aggregator_erase ops st (logger w), live := drop_node uid (live w)\<rparr>"
      using s vp by (auto simp: node_destroy_def split: option.splits bool.splits)
    have c: "contributions U (live w) = add_mset (st U) (contributions U (drop_node uid (live w)))"
      for U
      using contributions_drop_node[OF d m, of U] by simp
    have "balanced w'" unfolding w' by (rule balanced_erase[OF h b]) (rule c)
    then show ?thesis using d by (simp add: well_kept_def w' erase_tags drop_node_distinct)
  qed
qed

lemma run_well_kept:
  assumes "history_ops ops" "value_push fl" "run ops fl prs pre evs w = Some w'" "well_kept w"
    "\<forall>t st. \<forall>U \<in> fst ` set (m_aggregators (logger w)). prs t st U = st U"
  shows "well_kept w'"
  using assms(3-5)
proof (induction evs arbitrary: w)
  case Nil
  then show ?case by simp
next
  case (Cons ev evs)
  then obtain w1 where w1: "step ops fl prs pre ev w = Some w1"
    and r: "run ops fl prs pre evs w1 = Some w'"
    by (auto split: option.splits)
  have k1: "well_kept w1"
    and t1: "map fst (m_aggregators (logger w1)) = map fst (m_aggregators (logger w))"
    using step_well_kept[OF assms(1,2) w1 Cons.prems(2,3)] by simp_all
  have "fst ` set (m_aggregators (logger w1)) = fst ` set (m_aggregators (logger w))"
    using arg_cong[OF t1, of set] by simp
  then have "\<forall>t st. \<forall>U \<in> fst ` set (m_aggregators (logger w1)). prs t st U = st U"
    using Cons.prems(3) by simp
  from Cons.IH[OF r k1 this] show ?case .
qed

text \<open>
  C9, as stated, does not hold: the node erases its current storage tuple, read after
  \<^verbatim>\<open>P::node::round_start\<close> has run, not the tuple it inserted. When the parent's
  \<^verbatim>\<open>round_start\<close> sets the aggregated value to 8, a node constructed with the value 5
  erases 8 at the start of its round and inserts 8 at the end: outside of any round the
  aggregator then holds the contribution 5 for a node whose storage value is 8.
\<close>

theorem parent_round_start_leaves_stale_contribution:
  "run tally_ops push_flags (\<lambda>t st U. 8) (\<lambda>t st. st)
       [Emplace 1 (\<lambda>U. 5), RoundStart 1 0, RoundEnd 1 0] empty_world
     = Some \<lparr>logger = tally_net\<lparr>m_aggregators := [(Tag ''x'', ({#8, 5#}, {#8#}))]\<rparr>,
             live = [(1, \<lambda>U. 8, False)]\<rparr> \<and>
   {#8, 5 :: int#} - {#8#} = {#5#} \<and> {#5 :: int#} \<noteq> {#8#} \<and>
   \<not> balanced \<lparr>logger = tally_net\<lparr>m_aggregators := [(Tag ''x'', ({#8, 5#}, {#8#}))]\<rparr>,
                  live = [(1, \<lambda>U. 8 :: int, False)]\<rparr>"
  by (simp add: empty_world_def tally_net_def tally_ops_def push_flags_def
      node_init_def round_start_def round_end_def aggregator_insert_def
      aggregator_erase_def aggregator_insert_impl_def aggregator_erase_impl_def
      history_insert_def history_erase_def set_node_def Let_def balanced_def
      contributions_def)

text \<open>
  C9, amended. With \<^verbatim>\<open>value_push\<close> enabled, start from a net without nodes whose
  aggregators have been given nothing, and let the nodes live through any sequence of
  constructions, rounds (start, program, end) and destructions in which the storage tuple
  changes only inside a round, by the round's program or the parent's \<^verbatim>\<open>round_end\<close>,
  and the parent's \<^verbatim>\<open>round_start\<close> leaves the aggregated storage values as they are.
  Then for every aggregator the erased values are among the inserted ones, and what remains
  is exactly one value per node outside a round, that node's current storage value; when
  no node is inside a round, one per live node.
\<close>

theorem pushed_contributions_balanced:
  assumes "history_ops ops" "value_push fl"
    "live w = []" "\<forall>(U, h) \<in> set (m_aggregators (logger w)). h = ({#}, {#})"
    "\<forall>t st. \<forall>U \<in> fst ` set (m_aggregators (logger w)). prs t st U = st U"
    "run ops fl prs pre evs w = Some w'"
  shows "\<forall>(U, h) \<in> set (m_aggregators (logger w')).
           snd h \<subseteq># fst h \<and>
           fst h - snd h = mset (map (\<lambda>(u, st, r). st U) (filter (\<lambda>(u, st, r). \<not> r) (live w'))) \<and>
           ((\<forall>(u, st, r) \<in> set (live w'). \<not> r) \<longrightarrow>
              fst h - snd h = mset (map (\<lambda>(u, st, r). st U) (live w')))"
proof -
  have "well_kept w"
    using assms(3,4) by (auto simp: well_kept_def balanced_def contributions_def)
  from run_well_kept[OF assms(1,2,6) this assms(5)]
  have b: "balanced w'" by (simp add: well_kept_def)
  have f: "contributions U (live w') = mset (map (\<lambda>(u, st, r). st U) (live w'))"
    if "\<forall>(u, st, r) \<in> set (live w'). \<not> r" for U
  proof -
    have "filter (\<lambda>(u, st, r). \<not> r) (live w') = live w'"
      using that by (auto intro: filter_True)
    then show ?thesis by (simp add: contributions_def)
  qed
  have "snd h \<subseteq># fst h \<and>
        fst h - snd h = mset (map (\<lambda>(u, st, r). st U) (filter (\<lambda>(u, st, r). \<not> r) (live w'))) \<and>
        ((\<forall>(u, st, r) \<in> set (live w'). \<not> r) \<longrightarrow>
           fst h - snd h = mset (map (\<lambda>(u, st, r). st U) (live w')))"
    if "(U, h) \<in> set (m_aggregators (logger w'))" for U h
  proof -
    have 1: "snd h \<subseteq># fst h" and 2: "fst h - snd h = contributions U (live w')"
      using b that by (auto simp: balanced_def)
    have 3: "fst h - snd h
        = mset (map (\<lambda>(u, st, r). st U) (filter (\<lambda>(u, st, r). \<not> r) (live w')))"
      using 2 by (simp only: contributions_def)
    have 4: "(\<forall>(u, st, r) \<in> set (live w'). \<not> r) \<longrightarrow>
        fst h - snd h = mset (map (\<lambda>(u, st, r). st U) (live w'))"
      using 2 f[of U] by (simp only:) blast
    show ?thesis by (intro conjI) (rule 1, rule 3, rule 4)
  qed
  then show ?thesis by blast
qed

theorem pushed_contributions_balanced_witness:
  "\<exists>w' I E. run tally_ops push_flags (\<lambda>t st. st) (\<lambda>t st. st) example_life empty_world = Some w' \<and>
     map fst (live w') = [1] \<and> m_aggregators (logger w') = [(Tag ''x'', (I, E))] \<and>
     E \<subseteq># I \<and> I - E = {#6#}"
proof -
  let ?w = "\<lparr>logger = tally_net\<lparr>m_aggregators := [(Tag ''x'', ({#6, 7, 5 :: int#}, {#7, 5#}))]\<rparr>,
         live = [(1, \<lambda>U. 6 :: int, False)]\<rparr>"
  have r: "run tally_ops push_flags (\<lambda>t st. st) (\<lambda>t st. st) example_life empty_world = Some ?w"
    by (simp add: example_life_def empty_world_def tally_net_def tally_ops_def push_flags_def
      node_init_def node_destroy_def round_start_def round_end_def aggregator_insert_def
      aggregator_erase_def aggregator_insert_impl_def aggregator_erase_impl_def
      history_insert_def history_erase_def set_node_def drop_node_def Let_def)
  have h1: "history_ops tally_ops" by (simp add: history_ops_def tally_ops_def)
  have h2: "value_push push_flags" by (simp add: push_flags_def)
  have h3: "live empty_world = []" by (simp add: empty_world_def)
  have h4: "\<forall>(U, h) \<in> set (m_aggregators (logger empty_world)). h = ({#}, {#})"
    by (simp add: empty_world_def tally_net_def)
  have h5: "\<forall>t st. \<forall>U \<in> fst ` set (m_aggregators (logger empty_world)). (\<lambda>t st. st) t st U = st U"
    by simp
  from pushed_contributions_balanced[OF h1 h2 h3 h4 h5 r]
  have "{#7, 5 :: int#} \<subseteq># {#6, 7, 5#} \<and> {#6, 7, 5 :: int#} - {#7, 5#} = {#6#}"
    by simp
  then show ?thesis using r by simp
qed

subsection \<open>Gossip of the minimum\<close>

text \<open>
  C3. Three devices with uids 1, 2, 3, fully connected, with values 5, 2, 9, run
  \<^verbatim>\<open>gossip_min\<close>. After two rounds of the network the storage value of each device is 2:
  both when the devices of a round run at the same time, and when they take turns in any
  order within each of the two rounds, every export being delivered at once.
\<close>

theorem gossip_min_three_devices:
  "map d_storage (sync_round fully_connected (sync_round fully_connected gossip_net))
     = [Some 2, Some 2, Some 2] \<and>
   (\<forall>p1 \<in> set round_orders. \<forall>p2 \<in> set round_orders.
      map d_storage (fire_all fully_connected (p1 @ p2) gossip_net) = [Some 2, Some 2, Some 2])"
  by code_simp

theorem gossip_min_three_devices_witness:
  "[1, 2, 3] \<in> set round_orders \<and> [3, 1, 2] \<in> set round_orders \<and>
   map d_storage (fire_all fully_connected ([1, 2, 3] @ [3, 1, 2]) gossip_net)
     = [Some 2, Some 2, Some 2]"
proof -
  have a: "[1, 2, 3] \<in> set round_orders" "[3, 1, 2] \<in> set round_orders"
    by (simp_all add: round_orders_def)
  from gossip_min_three_devices a show ?thesis by blast
qed

subsection \<open>The parent chosen by single-path collection\<close>

lemma tuple_less_trans: "tuple_less x y \<Longrightarrow> tuple_less y z \<Longrightarrow> tuple_less x z"
  by (auto simp: tuple_less_def)

lemma tuple_less_total: "\<not> tuple_less x y \<Longrightarrow> \<not> tuple_less y x \<Longrightarrow> x = y"
  by (auto simp: tuple_less_def prod_eq_iff)

lemma tuple_less_irrefl: "\<not> tuple_less x x"
  by (simp add: tuple_less_def)

lemma foldl_tuple_min:
  "(foldl (\<lambda>a j. tuple_min a (g j)) a0 ks = a0 \<or>
      foldl (\<lambda>a j. tuple_min a (g j)) a0 ks \<in> g ` set ks) \<and>
   \<not> tuple_less a0 (foldl (\<lambda>a j. tuple_min a (g j)) a0 ks) \<and>
   (\<forall>j \<in> set ks. \<not> tuple_less (g j) (foldl (\<lambda>a j. tuple_min a (g j)) a0 ks))"
proof (induction ks arbitrary: a0)
  case Nil
  then show ?case by (simp add: tuple_less_irrefl)
next
  case (Cons k ks)
  let ?a1 = "tuple_min a0 (g k)"
  let ?r = "foldl (\<lambda>a j. tuple_min a (g j)) ?a1 ks"
  note ih = Cons.IH[of ?a1]
  have m0: "\<not> tuple_less a0 ?a1" and mk: "\<not> tuple_less (g k) ?a1"
    by (auto simp: tuple_min_def tuple_less_irrefl dest: tuple_less_trans tuple_less_total)
  have c: "?a1 = a0 \<or> ?a1 = g k" by (simp add: tuple_min_def)
  have le: "\<not> tuple_less x ?r" if "\<not> tuple_less x ?a1" for x
  proof
    assume x: "tuple_less x ?r"
    have "\<not> tuple_less ?a1 ?r" using ih by simp
    then have "tuple_less ?r ?a1 \<or> ?r = ?a1" using tuple_less_total by blast
    then show False using x that by (auto dest: tuple_less_trans)
  qed
  have 1: "?r = a0 \<or> ?r \<in> g ` set (k # ks)" using ih c by auto
  have 2: "\<not> tuple_less a0 ?r" using le[OF m0] .
  have 3: "\<forall>j \<in> set (k # ks). \<not> tuple_less (g j) ?r" using le[OF mk] ih by simp
  show ?case using 1 2 3 by simp
qed

text \<open>
  C4. The parent chosen by \<^verbatim>\<open>sp_collection\<close> is a device of the neighbourhood whose
  distance is minimal, and among the devices with that distance the one with the smallest
  uid: every device of the neighbourhood is either strictly farther, or equally far with a
  uid that is not smaller. So two neighbouring devices 7 and 11 with identical distance
  estimates both choose 7.
\<close>

theorem sp_parent_smallest_uid_among_nearest:
  assumes "node_hood node \<noteq> []"
  shows "sp_parent node nbrdist \<in> set (node_hood node) \<and>
         (\<forall>k \<in> set (node_hood node).
            nbrdist (sp_parent node nbrdist) < nbrdist k \<or>
            (nbrdist (sp_parent node nbrdist) = nbrdist k \<and> sp_parent node nbrdist \<le> k))"
proof -
  obtain k ks where h: "node_hood node = k # ks" using assms by (cases "node_hood node") auto
  let ?g = "make_tuple nbrdist nbr_uid"
  let ?r = "foldl (\<lambda>a j. tuple_min a (?g j)) (?g k) ks"
  have r: "min_hood ?g node = ?r" by (simp add: min_hood_def fold_hood_def h)
  note f = foldl_tuple_min[of ?g "?g k" ks]
  have mem: "?r \<in> ?g ` set (k # ks)" using f by auto
  then obtain p where p: "p \<in> set (k # ks)" "?r = ?g p" by auto
  have sp: "sp_parent node nbrdist = p" using p r by (simp add: sp_parent_def make_tuple_def nbr_uid_def)
  have "\<not> tuple_less (?g j) (?g p)" if "j \<in> set (k # ks)" for j
    using f that p(2) by auto
  then have "nbrdist p < nbrdist j \<or> (nbrdist p = nbrdist j \<and> p \<le> j)" if "j \<in> set (k # ks)" for j
    using that by (fastforce simp: tuple_less_def make_tuple_def nbr_uid_def)
  then show ?thesis using p(1) sp h by simp
qed

theorem sp_parent_smallest_uid_among_nearest_witness:
  "node_hood \<lparr>node_uid = 7, node_hood = [7, 11]\<rparr> \<noteq> [] \<and>
   node_hood \<lparr>node_uid = 11, node_hood = [7, 11]\<rparr> \<noteq> [] \<and>
   sp_parent \<lparr>node_uid = 7, node_hood = [7, 11]\<rparr> (\<lambda>k. 3 :: int) = 7 \<and>
   sp_parent \<lparr>node_uid = 11, node_hood = [7, 11]\<rparr> (\<lambda>k. 3 :: int) = 7"
  using sp_parent_smallest_uid_among_nearest[of "\<lparr>node_uid = 7, node_hood = [7, 11]\<rparr>" "\<lambda>k. 3 :: int"]
    sp_parent_smallest_uid_among_nearest[of "\<lparr>node_uid = 11, node_hood = [7, 11]\<rparr>" "\<lambda>k. 3 :: int"]
  by auto

subsection \<open>The normalising divisor of weighted multi-path collection\<close>

lemma r_quot_one: "r_quot x (Fin 1) = x"
  by (cases x) (simp_all add: r_of_sign_def r_sign_def)

text \<open>
  C10. In \<^verbatim>\<open>wmp_collection\<close> the divisor of the outgoing weights is never zero, whatever
  the distances and the radius are (infinite and not-a-number included), so the division
  \<^verbatim>\<open>out_w / factor\<close> always has a result; and when the sum of the outgoing weights over
  the neighbourhood is zero, the divisor is 1 and the field handed to \<^verbatim>\<open>nbr\<close> for
  broadcast is the field \<^verbatim>\<open>out_w\<close> itself.
\<close>

theorem wmp_divisor_never_zero:
  "\<not> r_is_zero (factor (wmp_collection_weights node nbrdist nbr_dist distance radius)) \<and>
   sent_w (wmp_collection_weights node nbrdist nbr_dist distance radius) \<noteq> None \<and>
   (r_is_zero (sum_hood (out_w (wmp_collection_weights node nbrdist nbr_dist distance radius))
                 (Fin 0) node) \<longrightarrow>
      factor (wmp_collection_weights node nbrdist nbr_dist distance radius) = Fin 1 \<and>
      sent_w (wmp_collection_weights node nbrdist nbr_dist distance radius)
        = Some (out_w (wmp_collection_weights node nbrdist nbr_dist distance radius)))"
  by (simp add: wmp_collection_weights_def Let_def r_is_zero_def field_div_def r_quot_one)

theorem wmp_divisor_never_zero_witness:
  "r_is_zero (sum_hood (out_w (wmp_collection_weights \<lparr>node_uid = 7, node_hood = [7, 11]\<rparr>
       (\<lambda>k. Fin 2) (\<lambda>k. Fin 1) (Fin 2) (Fin 5))) (Fin 0) \<lparr>node_uid = 7, node_hood = [7, 11]\<rparr>) \<and>
   factor (wmp_collection_weights \<lparr>node_uid = 7, node_hood = [7, 11]\<rparr>
       (\<lambda>k. Fin 2) (\<lambda>k. Fin 1) (Fin 2) (Fin 5)) = Fin 1 \<and>
   sent_w (wmp_collection_weights \<lparr>node_uid = 7, node_hood = [7, 11]\<rparr>
       (\<lambda>k. Fin 2) (\<lambda>k. Fin 1) (Fin 2) (Fin 5))
     = Some (out_w (wmp_collection_weights \<lparr>node_uid = 7, node_hood = [7, 11]\<rparr>
       (\<lambda>k. Fin 2) (\<lambda>k. Fin 1) (Fin 2) (Fin 5)))"
proof -
  have z: "r_is_zero (sum_hood (out_w (wmp_collection_weights \<lparr>node_uid = 7, node_hood = [7, 11]\<rparr>
       (\<lambda>k. Fin 2) (\<lambda>k. Fin 1) (Fin 2) (Fin 5))) (Fin 0) \<lparr>node_uid = 7, node_hood = [7, 11]\<rparr>)"
    by (simp add: wmp_collection_weights_def Let_def sum_hood_def fold_hood_def mux_def
        r_is_zero_def r_isinf_def r_sub_def r_max_def)
  from wmp_divisor_never_zero[of "\<lparr>node_uid = 7, node_hood = [7, 11]\<rparr>"
      "\<lambda>k. Fin 2" "\<lambda>k. Fin 1" "Fin 2" "Fin 5"] z
  show ?thesis by blast
qed

end
